theory Spec2Isabelle
  imports Complex_Main
begin

section \<open>Data model\<close>

text \<open>
  The engine of \<^verbatim>\<open>src/lib/game.ts\<close> (class \<^verbatim>\<open>Game\<close>): a snake on a grid
  with wrap-around edges and optional obstacles. A second variant of the same class
  (no obstacles, walls at the edges of the grid) is modelled further down.

  JavaScript numbers are modelled as \<^typ>\<open>int\<close>: grid sizes, coordinates, the
  score and the counters are integers in every state the engine builds.
\<close>

record point =
  x :: int
  y :: int

datatype reason = Wall | Self | Obstacle

text \<open>The object returned by \<^verbatim>\<open>step()\<close>; \<open>reason\<close> is an optional property.\<close>

record outcome =
  ate :: bool
  died :: bool
  reason :: "reason option"

text \<open>
  Reading \<^verbatim>\<open>head.x\<close> when \<^verbatim>\<open>this.snake[0]\<close> is \<^verbatim>\<open>undefined\<close>
  throws a \<^verbatim>\<open>TypeError\<close>.
\<close>

datatype error = TypeError

text \<open>
  The fields of the class. The variant with walls has the fields of \<open>bgame\<close>; the
  variant with obstacles adds \<open>obstacleCount\<close> and \<open>obstacles\<close>.
\<close>

record bgame =
  cols :: int
  rows :: int
  snake :: "point list"
  direction :: point
  nextDirection :: point
  food :: "point option"
  score :: int
  over :: bool
  growAmount :: int

record game = bgame +
  obstacleCount :: int
  obstacles :: "point list"

section \<open>Random numbers\<close>

text \<open>
  \<^verbatim>\<open>Math.random()\<close> returns a number \<open>r\<close> with \<open>0 \<le> r < 1\<close>. The type
  \<open>rand\<close> holds such results, as real numbers; the code only ever uses them as
  \<^verbatim>\<open>Math.floor(Math.random() * n)\<close>, which is an index below \<open>n\<close> when
  \<open>0 < n\<close> (lemma \<open>rand_index_less\<close>), so that every read \<open>free ! idx\<close> below is
  within the list.
\<close>

typedef rand = "{r :: real. 0 \<le> r \<and> r < 1}"
  by (rule exI [of _ 0]) simp

setup_lifting type_definition_rand

lift_definition rand_zero :: rand is "0 :: real"
  by simp

lift_definition rand_half :: rand is "1 / 2 :: real"
  by simp

lift_definition rand_nine_tenths :: rand is "9 / 10 :: real"
  by simp

definition rand_index :: "rand \<Rightarrow> nat \<Rightarrow> nat" where
  "rand_index r n = nat \<lfloor>Rep_rand r * real n\<rfloor>"

section \<open>Keys of cells\<close>

text \<open>
  Occupied cells are kept in a \<^verbatim>\<open>Set\<close> of strings, the key of a cell being the
  template string \<^verbatim>\<open>`${p.x},${p.y}`\<close>: the decimal numerals of both coordinates
  with a comma between them.
\<close>

text \<open>The digit \<open>d\<close> as a character: \<open>CHR ''0''\<close> has code 48.\<close>

definition digit_char :: "nat \<Rightarrow> char" where
  "digit_char d = char_of (48 + d)"

fun toDigits :: "nat \<Rightarrow> string" where
  "toDigits n = (if n < 10 then [digit_char n] else toDigits (n div 10) @ [digit_char (n mod 10)])"

declare toDigits.simps [simp del]

definition toString :: "int \<Rightarrow> string" where
  "toString i = (if i < 0 then CHR ''-'' # toDigits (nat (- i)) else toDigits (nat i))"

definition key :: "point \<Rightarrow> string" where
  "key p = toString (x p) @ '','' @ toString (y p)"

section \<open>Food placement\<close>

text \<open>
  The two nested loops of \<^verbatim>\<open>placeFood\<close> and \<^verbatim>\<open>generateObstacles\<close>: every
  cell of the grid whose key is not in \<open>occupied\<close>, column by column. The range
  \<open>[0 .. c - 1]\<close> is empty when \<open>c \<le> 0\<close>, as
  \<^verbatim>\<open>for (let x = 0; x < this.cols; x++)\<close> then makes no iteration.
\<close>

definition free_cells :: "string list \<Rightarrow> int \<Rightarrow> int \<Rightarrow> point list" where
  "free_cells occupied c r =
     concat (map (\<lambda>a. concat (map (\<lambda>b.
        if key \<lparr>x = a, y = b\<rparr> \<in> set occupied then [] else [\<lparr>x = a, y = b\<rparr>])
      [0 .. r - 1])) [0 .. c - 1])"

definition placeFood :: "rand \<Rightarrow> game \<Rightarrow> game" where
  "placeFood r g =
     (let occupied = map key (snake g) @ map key (obstacles g);
          free = free_cells occupied (cols g) (rows g)
      in if length free = 0 then g\<lparr>food := None\<rparr>
         else g\<lparr>food := Some (free ! rand_index r (length free))\<rparr>)"

section \<open>Obstacles and reset\<close>

text \<open>
  The selection loop of \<^verbatim>\<open>generateObstacles\<close>:
  \<^verbatim>\<open>for (let i = 0; i < count && free.length > 0; i++)\<close>, which draws an index,
  splices that cell out of \<open>free\<close> and pushes it onto the obstacles. \<open>rnd i\<close> is
  the result of the call of \<^verbatim>\<open>Math.random()\<close> in iteration \<open>i\<close>.
\<close>

function obstacleLoop :: "(nat \<Rightarrow> rand) \<Rightarrow> nat \<Rightarrow> int \<Rightarrow> point list \<Rightarrow> point list \<Rightarrow> point list" where
  "obstacleLoop rnd i count free obs =
     (if int i < count \<and> length free > 0
      then let idx = rand_index (rnd i) (length free);
               pos = free ! idx
           in obstacleLoop rnd (i + 1) count (take idx free @ drop (idx + 1) free) (obs @ [pos])
      else obs)"
  by pat_completeness auto
termination
  by (relation "measure (\<lambda>(rnd, i, count, free, obs). nat (count - int i))") auto

declare obstacleLoop.simps [simp del]

text \<open>\<^verbatim>\<open>!count\<close> holds of the number 0.\<close>

definition generateObstacles :: "(nat \<Rightarrow> rand) \<Rightarrow> int \<Rightarrow> game \<Rightarrow> game" where
  "generateObstacles rnd count g =
     (if count = 0 \<or> count \<le> 0 then g\<lparr>obstacles := []\<rparr>
      else let occupied = map key (snake g);
               free = free_cells occupied (cols g) (rows g)
           in g\<lparr>obstacles := obstacleLoop rnd 0 count free []\<rparr>)"

text \<open>
  \<^verbatim>\<open>reset()\<close>; \<open>rnd\<close> are the random numbers drawn by
  \<^verbatim>\<open>generateObstacles\<close> and \<open>r\<close> is the one drawn by \<^verbatim>\<open>placeFood\<close>.
  \<^verbatim>\<open>Math.floor(this.cols / 2)\<close> is \<open>cols div 2\<close> on integers.
\<close>

definition reset :: "(nat \<Rightarrow> rand) \<Rightarrow> rand \<Rightarrow> game \<Rightarrow> game" where
  "reset rnd r g =
     (let midX = cols g div 2;
          midY = rows g div 2;
          g1 = g\<lparr>snake := [\<lparr>x = midX, y = midY\<rparr>,
                           \<lparr>x = midX - 1, y = midY\<rparr>,
                           \<lparr>x = midX - 2, y = midY\<rparr>]\<rparr>;
          g2 = g1\<lparr>direction := \<lparr>x = 1, y = 0\<rparr>\<rparr>;
          g3 = g2\<lparr>nextDirection := direction g2\<rparr>;
          g4 = g3\<lparr>score := 0, over := False, growAmount := 0\<rparr>;
          g5 = generateObstacles rnd (obstacleCount g4) g4
      in placeFood r g5)"

section \<open>Direction input\<close>

text \<open>\<^verbatim>\<open>setDirection(dir)\<close> is the same method in both variants.\<close>

definition setDirection :: "point \<Rightarrow> 'a bgame_scheme \<Rightarrow> 'a bgame_scheme" where
  "setDirection dir g =
     (if x dir = - x (direction g) \<and> y dir = - y (direction g) then g
      else g\<lparr>nextDirection := dir\<rparr>)"

section \<open>The tick\<close>

text \<open>
  The remainder operator \<^verbatim>\<open>%\<close> of JavaScript truncates: the result has the sign
  of the dividend. (\<^verbatim>\<open>a % 0\<close> is \<^verbatim>\<open>NaN\<close>, which is not an integer: the grid
  sizes are positive, see \<open>valid_config\<close>.)
\<close>

definition js_rem :: "int \<Rightarrow> int \<Rightarrow> int" where
  "js_rem a b = sgn a * (\<bar>a\<bar> mod \<bar>b\<bar>)"

text \<open>\<^verbatim>\<open>((v % n) + n) % n\<close>\<close>

definition wrap :: "int \<Rightarrow> int \<Rightarrow> int" where
  "wrap v n = js_rem (js_rem v n + n) n"

text \<open>
  The local \<^verbatim>\<open>newHead\<close> of \<^verbatim>\<open>step()\<close>, from the head and the direction that
  has just been committed, after the wrap-around.
\<close>

definition newHead :: "game \<Rightarrow> point \<Rightarrow> point" where
  "newHead g head =
     (let n0 = \<lparr>x = x head + x (direction g), y = y head + y (direction g)\<rparr>
      in \<lparr>x = wrap (x n0) (cols g), y = wrap (y n0) (rows g)\<rparr>)"

text \<open>\<^verbatim>\<open>ps.some(o => o.x === q.x && o.y === q.y)\<close>\<close>

definition hits :: "point list \<Rightarrow> point \<Rightarrow> bool" where
  "hits ps q = list_ex (\<lambda>p. x p = x q \<and> y p = y q) ps"

text \<open>\<^verbatim>\<open>this.food && newHead.x === this.food.x && newHead.y === this.food.y\<close>\<close>

definition onFood :: "point option \<Rightarrow> point \<Rightarrow> bool" where
  "onFood f q = (case f of None \<Rightarrow> False | Some p \<Rightarrow> x q = x p \<and> y q = y p)"

text \<open>
  \<^verbatim>\<open>step()\<close> of the variant with wrap-around and obstacles. It returns the state
  after the call and what the call returned or threw; \<open>r\<close> is the random number that
  \<^verbatim>\<open>placeFood\<close> draws when the food is eaten.
\<close>

definition step :: "rand \<Rightarrow> game \<Rightarrow> game \<times> (error + outcome)" where
  "step r g =
     (if over g then (g, Inr \<lparr>ate = False, died = True, reason = None\<rparr>)
      else
        let g1 = g\<lparr>direction := nextDirection g\<rparr> in
        case snake g1 of
          [] \<Rightarrow> (g1, Inl TypeError)
        | head # _ \<Rightarrow>
            let nh = newHead g1 head in
            if hits (obstacles g1) nh
            then (g1\<lparr>over := True\<rparr>, Inr \<lparr>ate = False, died = True, reason = Some Obstacle\<rparr>)
            else if hits (snake g1) nh
            then (g1\<lparr>over := True\<rparr>, Inr \<lparr>ate = False, died = True, reason = Some Self\<rparr>)
            else
              let g2 = g1\<lparr>snake := nh # snake g1\<rparr>;
                  eaten = onFood (food g2) nh;
                  g3 = (if eaten
                        then placeFood r (g2\<lparr>score := score g2 + 1,
                                              growAmount := growAmount g2 + 1\<rparr>)
                        else g2);
                  g4 = (if growAmount g3 > 0 then g3\<lparr>growAmount := growAmount g3 - 1\<rparr>
                        else g3\<lparr>snake := butlast (snake g3)\<rparr>)
              in (g4, Inr \<lparr>ate = eaten, died = False, reason = None\<rparr>))"

section \<open>The tick of the JavaScript file\<close>

text \<open>
  The repository also holds the class in plain JavaScript. Its \<^verbatim>\<open>step()\<close> is the one
  above, except that the objects it returns for a finished game and for a fatal tick have no
  property \<^verbatim>\<open>ate\<close>: \<^verbatim>\<open>{ died: true }\<close> and
  \<^verbatim>\<open>{ died: true, reason: 'obstacle' }\<close>.
\<close>

record js_outcome =
  js_ate :: "bool option"
  js_died :: bool
  js_reason :: "reason option"

definition step_js :: "rand \<Rightarrow> game \<Rightarrow> game \<times> (error + js_outcome)" where
  "step_js r g =
     (if over g then (g, Inr \<lparr>js_ate = None, js_died = True, js_reason = None\<rparr>)
      else
        let g1 = g\<lparr>direction := nextDirection g\<rparr> in
        case snake g1 of
          [] \<Rightarrow> (g1, Inl TypeError)
        | head # _ \<Rightarrow>
            let nh = newHead g1 head in
            if hits (obstacles g1) nh
            then (g1\<lparr>over := True\<rparr>,
                  Inr \<lparr>js_ate = None, js_died = True, js_reason = Some Obstacle\<rparr>)
            else if hits (snake g1) nh
            then (g1\<lparr>over := True\<rparr>,
                  Inr \<lparr>js_ate = None, js_died = True, js_reason = Some Self\<rparr>)
            else
              let g2 = g1\<lparr>snake := nh # snake g1\<rparr>;
                  eaten = onFood (food g2) nh;
                  g3 = (if eaten
                        then placeFood r (g2\<lparr>score := score g2 + 1,
                                              growAmount := growAmount g2 + 1\<rparr>)
                        else g2);
                  g4 = (if growAmount g3 > 0 then g3\<lparr>growAmount := growAmount g3 - 1\<rparr>
                        else g3\<lparr>snake := butlast (snake g3)\<rparr>)
              in (g4, Inr \<lparr>js_ate = Some eaten, js_died = False, js_reason = None\<rparr>))"

section \<open>The variant with walls\<close>

text \<open>
  The second \<^verbatim>\<open>Game\<close> class of the repository has no obstacles and no wrap-around:
  leaving the grid is fatal.
\<close>

definition placeFood_bounded :: "rand \<Rightarrow> bgame \<Rightarrow> bgame" where
  "placeFood_bounded r g =
     (let occupied = map key (snake g);
          free = free_cells occupied (cols g) (rows g)
      in if length free = 0 then g\<lparr>food := None\<rparr>
         else g\<lparr>food := Some (free ! rand_index r (length free))\<rparr>)"

definition reset_bounded :: "rand \<Rightarrow> bgame \<Rightarrow> bgame" where
  "reset_bounded r g =
     (let midX = cols g div 2;
          midY = rows g div 2;
          g1 = g\<lparr>snake := [\<lparr>x = midX, y = midY\<rparr>,
                           \<lparr>x = midX - 1, y = midY\<rparr>,
                           \<lparr>x = midX - 2, y = midY\<rparr>]\<rparr>;
          g2 = g1\<lparr>direction := \<lparr>x = 1, y = 0\<rparr>\<rparr>;
          g3 = g2\<lparr>nextDirection := direction g2\<rparr>;
          g4 = g3\<lparr>score := 0, over := False, growAmount := 0\<rparr>
      in placeFood_bounded r g4)"

text \<open>The local \<^verbatim>\<open>newHead\<close> of this variant: no wrap-around.\<close>

definition newHead_bounded :: "bgame \<Rightarrow> point \<Rightarrow> point" where
  "newHead_bounded g head = \<lparr>x = x head + x (direction g), y = y head + y (direction g)\<rparr>"

text \<open>
  \<^verbatim>\<open>newHead.x < 0 || newHead.x >= this.cols || newHead.y < 0 || newHead.y >= this.rows\<close>
\<close>

definition outside :: "bgame \<Rightarrow> point \<Rightarrow> bool" where
  "outside g q = (x q < 0 \<or> x q \<ge> cols g \<or> y q < 0 \<or> y q \<ge> rows g)"

definition step_bounded :: "rand \<Rightarrow> bgame \<Rightarrow> bgame \<times> (error + outcome)" where
  "step_bounded r g =
     (if over g then (g, Inr \<lparr>ate = False, died = True, reason = None\<rparr>)
      else
        let g1 = g\<lparr>direction := nextDirection g\<rparr> in
        case snake g1 of
          [] \<Rightarrow> (g1, Inl TypeError)
        | head # _ \<Rightarrow>
            let nh = newHead_bounded g1 head in
            if outside g1 nh
            then (g1\<lparr>over := True\<rparr>, Inr \<lparr>ate = False, died = True, reason = Some Wall\<rparr>)
            else if hits (snake g1) nh
            then (g1\<lparr>over := True\<rparr>, Inr \<lparr>ate = False, died = True, reason = Some Self\<rparr>)
            else
              let g2 = g1\<lparr>snake := nh # snake g1\<rparr>;
                  eaten = onFood (food g2) nh;
                  g3 = (if eaten
                        then placeFood_bounded r (g2\<lparr>score := score g2 + 1,
                                                      growAmount := growAmount g2 + 1\<rparr>)
                        else g2);
                  g4 = (if growAmount g3 > 0 then g3\<lparr>growAmount := growAmount g3 - 1\<rparr>
                        else g3\<lparr>snake := butlast (snake g3)\<rparr>)
              in (g4, Inr \<lparr>ate = eaten, died = False, reason = None\<rparr>))"

section \<open>Sequences of calls\<close>

text \<open>
  A caller drives the engine through its three methods. \<open>run\<close> makes the calls in
  order and collects what the calls of \<^verbatim>\<open>step()\<close> returned; an exception ends
  the run, as it ends the caller's loop.
\<close>

datatype call = Reset "nat \<Rightarrow> rand" rand | SetDirection point | Step rand

fun is_reset :: "call \<Rightarrow> bool" where
  "is_reset (Reset rnd r) = True"
| "is_reset (SetDirection d) = False"
| "is_reset (Step r) = False"

fun is_step :: "call \<Rightarrow> bool" where
  "is_step (Reset rnd r) = False"
| "is_step (SetDirection d) = False"
| "is_step (Step r) = True"

fun run :: "call list \<Rightarrow> game \<Rightarrow> game \<times> outcome list" where
  "run [] g = (g, [])"
| "run (Reset rnd r # cs) g = run cs (reset rnd r g)"
| "run (SetDirection d # cs) g = run cs (setDirection d g)"
| "run (Step r # cs) g =
     (case step r g of
        (g', Inl e) \<Rightarrow> (g', [])
      | (g', Inr out) \<Rightarrow> (case run cs g' of (g'', outs) \<Rightarrow> (g'', out # outs)))"

text \<open>The same for the variant with walls, whose \<^verbatim>\<open>reset()\<close> draws one number.\<close>

fun run_bounded :: "call list \<Rightarrow> bgame \<Rightarrow> bgame \<times> outcome list" where
  "run_bounded [] g = (g, [])"
| "run_bounded (Reset rnd r # cs) g = run_bounded cs (reset_bounded r g)"
| "run_bounded (SetDirection d # cs) g = run_bounded cs (setDirection d g)"
| "run_bounded (Step r # cs) g =
     (case step_bounded r g of
        (g', Inl e) \<Rightarrow> (g', [])
      | (g', Inr out) \<Rightarrow> (case run_bounded cs g' of (g'', outs) \<Rightarrow> (g'', out # outs)))"

section \<open>Predicates on states\<close>

text \<open>The grid sizes are positive integers.\<close>

definition valid_config :: "'a bgame_scheme \<Rightarrow> bool" where
  "valid_config g = (0 < cols g \<and> 0 < rows g)"

text \<open>
  What holds of the counters and the snake in every state that \<^verbatim>\<open>reset()\<close>
  builds and that the other two methods keep (lemmas \<open>engine_inv_reset\<close>,
  \<open>engine_inv_setDirection\<close>, \<open>engine_inv_step\<close>).
\<close>

definition engine_inv :: "'a bgame_scheme \<Rightarrow> bool" where
  "engine_inv g = (snake g \<noteq> [] \<and> growAmount g = 0)"

text \<open>No segment of the snake lies on an obstacle.\<close>

definition snake_clear :: "game \<Rightarrow> bool" where
  "snake_clear g = (set (snake g) \<inter> set (obstacles g) = {})"

text \<open>A cell of the grid.\<close>

definition in_grid :: "'a bgame_scheme \<Rightarrow> point \<Rightarrow> bool" where
  "in_grid g p = (0 \<le> x p \<and> x p < cols g \<and> 0 \<le> y p \<and> y p < rows g)"

text \<open>A cell of the grid that holds neither a segment of the snake nor an obstacle.\<close>

definition free_cell :: "game \<Rightarrow> point \<Rightarrow> bool" where
  "free_cell g p = (in_grid g p \<and> p \<notin> set (snake g) \<and> p \<notin> set (obstacles g))"

definition free_cell_bounded :: "bgame \<Rightarrow> point \<Rightarrow> bool" where
  "free_cell_bounded g p = (in_grid g p \<and> p \<notin> set (snake g))"

text \<open>The four directions that the keyboard handlers pass to \<^verbatim>\<open>setDirection\<close>.\<close>

definition unit_vectors :: "point list" where
  "unit_vectors = [\<lparr>x = 1, y = 0\<rparr>, \<lparr>x = - 1, y = 0\<rparr>, \<lparr>x = 0, y = 1\<rparr>, \<lparr>x = 0, y = - 1\<rparr>]"

definition opposite :: "point \<Rightarrow> point" where
  "opposite d = \<lparr>x = - x d, y = - y d\<rparr>"

text \<open>Several calls of \<^verbatim>\<open>setDirection\<close> in a row.\<close>

definition setDirections :: "point list \<Rightarrow> 'a bgame_scheme \<Rightarrow> 'a bgame_scheme" where
  "setDirections ds g = foldl (\<lambda>s d. setDirection d s) g ds"

section \<open>The candidate head\<close>

text \<open>
  The cell that \<^verbatim>\<open>step()\<close> computes as \<^verbatim>\<open>newHead\<close> in a state whose snake
  is not empty: the direction is committed first.
\<close>

definition candidate :: "game \<Rightarrow> point" where
  "candidate g = newHead (g\<lparr>direction := nextDirection g\<rparr>) (hd (snake g))"

definition candidate_bounded :: "bgame \<Rightarrow> point" where
  "candidate_bounded g = newHead_bounded (g\<lparr>direction := nextDirection g\<rparr>) (hd (snake g))"

text \<open>The result of a fatal tick.\<close>

definition fatal :: "reason \<Rightarrow> outcome" where
  "fatal why = \<lparr>ate = False, died = True, reason = Some why\<rparr>"

section \<open>Example states\<close>

text \<open>
  The fields as the constructor sets them before it calls \<^verbatim>\<open>reset()\<close>, for a 4 by 4
  grid without obstacles.
\<close>

definition fresh_game :: game where
  "fresh_game =
     \<lparr>cols = 4, rows = 4, snake = [],
      direction = \<lparr>x = 0, y = 0\<rparr>, nextDirection = \<lparr>x = 0, y = 0\<rparr>,
      food = None, score = 0, over = False, growAmount = 0,
      obstacleCount = 0, obstacles = []\<rparr>"

definition fresh_bgame :: bgame where
  "fresh_bgame =
     \<lparr>cols = 4, rows = 4, snake = [],
      direction = \<lparr>x = 0, y = 0\<rparr>, nextDirection = \<lparr>x = 0, y = 0\<rparr>,
      food = None, score = 0, over = False, growAmount = 0\<rparr>"

text \<open>
  Calls that, after a \<^verbatim>\<open>reset()\<close> that puts the food right in front of the snake,
  eat it and turn twice, so that the head is next to the tail, and then ask for the turn
  towards the tail.
\<close>

definition coil_calls :: "call list" where
  "coil_calls =
     [Step rand_zero, SetDirection \<lparr>x = 0, y = 1\<rparr>, Step rand_zero,
      SetDirection \<lparr>x = - 1, y = 0\<rparr>, Step rand_zero, SetDirection \<lparr>x = 0, y = - 1\<rparr>]"

text \<open>The state that these calls lead to: a snake of four segments in a square.\<close>

definition ring_game :: game where
  "ring_game =
     \<lparr>cols = 4, rows = 4,
      snake = [\<lparr>x = 2, y = 3\<rparr>, \<lparr>x = 3, y = 3\<rparr>, \<lparr>x = 3, y = 2\<rparr>, \<lparr>x = 2, y = 2\<rparr>],
      direction = \<lparr>x = - 1, y = 0\<rparr>, nextDirection = \<lparr>x = 0, y = - 1\<rparr>,
      food = Some \<lparr>x = 0, y = 0\<rparr>, score = 1, over = False, growAmount = 0,
      obstacleCount = 0, obstacles = []\<rparr>"

text \<open>A grid of two cells, both under the snake that \<^verbatim>\<open>reset()\<close> builds there.\<close>

definition full_game :: game where
  "full_game =
     \<lparr>cols = 2, rows = 1,
      snake = [\<lparr>x = 1, y = 0\<rparr>, \<lparr>x = 0, y = 0\<rparr>, \<lparr>x = - 1, y = 0\<rparr>],
      direction = \<lparr>x = 1, y = 0\<rparr>, nextDirection = \<lparr>x = 1, y = 0\<rparr>,
      food = None, score = 0, over = False, growAmount = 0,
      obstacleCount = 0, obstacles = []\<rparr>"

text \<open>The variant with walls: a snake at the left edge of a 10 by 10 grid, heading left.\<close>

definition edge_bgame :: bgame where
  "edge_bgame =
     \<lparr>cols = 10, rows = 10,
      snake = [\<lparr>x = 0, y = 5\<rparr>, \<lparr>x = 1, y = 5\<rparr>, \<lparr>x = 2, y = 5\<rparr>],
      direction = \<lparr>x = - 1, y = 0\<rparr>, nextDirection = \<lparr>x = - 1, y = 0\<rparr>,
      food = Some \<lparr>x = 7, y = 7\<rparr>, score = 0, over = False, growAmount = 0\<rparr>"

text \<open>The variant with walls on the grid of two cells.\<close>

definition full_bgame :: bgame where
  "full_bgame =
     \<lparr>cols = 2, rows = 1,
      snake = [\<lparr>x = 1, y = 0\<rparr>, \<lparr>x = 0, y = 0\<rparr>, \<lparr>x = - 1, y = 0\<rparr>],
      direction = \<lparr>x = 1, y = 0\<rparr>, nextDirection = \<lparr>x = 1, y = 0\<rparr>,
      food = None, score = 0, over = False, growAmount = 0\<rparr>"

text \<open>A snake in the middle of a 10 by 10 grid with an obstacle right in front of it.\<close>

definition blocked_game :: game where
  "blocked_game =
     \<lparr>cols = 10, rows = 10,
      snake = [\<lparr>x = 5, y = 5\<rparr>, \<lparr>x = 4, y = 5\<rparr>, \<lparr>x = 3, y = 5\<rparr>],
      direction = \<lparr>x = 1, y = 0\<rparr>, nextDirection = \<lparr>x = 1, y = 0\<rparr>,
      food = Some \<lparr>x = 0, y = 0\<rparr>, score = 0, over = False, growAmount = 0,
      obstacleCount = 1, obstacles = [\<lparr>x = 6, y = 5\<rparr>]\<rparr>"

text \<open>The variant with walls: the curled-up snake of \<open>ring_game\<close>.\<close>

definition ring_bgame :: bgame where
  "ring_bgame =
     \<lparr>cols = 4, rows = 4,
      snake = [\<lparr>x = 2, y = 3\<rparr>, \<lparr>x = 3, y = 3\<rparr>, \<lparr>x = 3, y = 2\<rparr>, \<lparr>x = 2, y = 2\<rparr>],
      direction = \<lparr>x = - 1, y = 0\<rparr>, nextDirection = \<lparr>x = 0, y = - 1\<rparr>,
      food = Some \<lparr>x = 0, y = 0\<rparr>, score = 1, over = False, growAmount = 0\<rparr>"

text \<open>A snake whose head is on the right edge of the default 24 by 24 grid, heading right.\<close>

definition border_game :: game where
  "border_game =
     \<lparr>cols = 24, rows = 24,
      snake = [\<lparr>x = 23, y = 7\<rparr>, \<lparr>x = 22, y = 7\<rparr>, \<lparr>x = 21, y = 7\<rparr>],
      direction = \<lparr>x = 1, y = 0\<rparr>, nextDirection = \<lparr>x = 1, y = 0\<rparr>,
      food = Some \<lparr>x = 3, y = 3\<rparr>, score = 0, over = False, growAmount = 0,
      obstacleCount = 1, obstacles = [\<lparr>x = 10, y = 10\<rparr>]\<rparr>"

text \<open>A snake in the middle of a 10 by 10 grid with the food right in front of it.\<close>

definition eating_game :: game where
  "eating_game =
     \<lparr>cols = 10, rows = 10,
      snake = [\<lparr>x = 5, y = 5\<rparr>, \<lparr>x = 4, y = 5\<rparr>, \<lparr>x = 3, y = 5\<rparr>],
      direction = \<lparr>x = 1, y = 0\<rparr>, nextDirection = \<lparr>x = 1, y = 0\<rparr>,
      food = Some \<lparr>x = 6, y = 5\<rparr>, score = 0, over = False, growAmount = 0,
      obstacleCount = 1, obstacles = [\<lparr>x = 0, y = 0\<rparr>]\<rparr>"

text \<open>The same in the variant with walls.\<close>

definition eating_bgame :: bgame where
  "eating_bgame =
     \<lparr>cols = 10, rows = 10,
      snake = [\<lparr>x = 5, y = 5\<rparr>, \<lparr>x = 4, y = 5\<rparr>, \<lparr>x = 3, y = 5\<rparr>],
      direction = \<lparr>x = 1, y = 0\<rparr>, nextDirection = \<lparr>x = 1, y = 0\<rparr>,
      food = Some \<lparr>x = 6, y = 5\<rparr>, score = 0, over = False, growAmount = 0\<rparr>"

text \<open>The variant with walls: a snake with free cells ahead and the food elsewhere.\<close>

definition roaming_bgame :: bgame where
  "roaming_bgame =
     \<lparr>cols = 10, rows = 10,
      snake = [\<lparr>x = 5, y = 5\<rparr>, \<lparr>x = 4, y = 5\<rparr>, \<lparr>x = 3, y = 5\<rparr>],
      direction = \<lparr>x = 1, y = 0\<rparr>, nextDirection = \<lparr>x = 0, y = 1\<rparr>,
      food = Some \<lparr>x = 1, y = 1\<rparr>, score = 2, over = False, growAmount = 0\<rparr>"

text \<open>A snake whose head is in the corner \<open>(0, 0)\<close> of the 24 by 24 grid, heading left.\<close>

definition corner_game :: game where
  "corner_game =
     \<lparr>cols = 24, rows = 24,
      snake = [\<lparr>x = 0, y = 0\<rparr>, \<lparr>x = 1, y = 0\<rparr>, \<lparr>x = 2, y = 0\<rparr>],
      direction = \<lparr>x = - 1, y = 0\<rparr>, nextDirection = \<lparr>x = - 1, y = 0\<rparr>,
      food = Some \<lparr>x = 3, y = 3\<rparr>, score = 0, over = False, growAmount = 0,
      obstacleCount = 1, obstacles = [\<lparr>x = 10, y = 10\<rparr>]\<rparr>"

section \<open>Keys are injective\<close>

lemma of_char_digit_char: "d < 10 \<Longrightarrow> (of_char (digit_char d) :: nat) = 48 + d"
proof -
  assume "d < 10"
  have "(of_char (char_of (48 + d)) :: nat) = (48 + d) mod 256"
    by (rule of_char_of)
  with \<open>d < 10\<close> show ?thesis by (simp add: digit_char_def)
qed

lemma digit_char_inj:
  assumes "a < 10" and "b < 10" and "digit_char a = digit_char b"
  shows "a = b"
proof -
  have "48 + a = (of_char (digit_char a) :: nat)"
    using assms(1) by (simp only: of_char_digit_char)
  also have "\<dots> = of_char (digit_char b)"
    by (simp only: assms(3))
  also have "\<dots> = 48 + b"
    using assms(2) by (simp only: of_char_digit_char)
  finally show ?thesis by simp
qed

lemma toDigits_codes: "c \<in> set (toDigits n) \<Longrightarrow> 48 \<le> (of_char c :: nat)"
proof (induction n rule: toDigits.induct)
  case (1 n)
  show ?case
  proof (cases "n < 10")
    case True
    with "1.prems" show ?thesis
      by (simp add: toDigits.simps [of n] of_char_digit_char)
  next
    case False
    with "1.prems" "1.IH" show ?thesis
      by (auto simp add: toDigits.simps [of n] of_char_digit_char)
  qed
qed

lemma toDigits_not_Nil: "toDigits n \<noteq> []"
  by (simp add: toDigits.simps [of n])

lemma toDigits_long: "10 \<le> n \<Longrightarrow> 2 \<le> length (toDigits n)"
  using toDigits_not_Nil [of "n div 10"]
  by (cases "toDigits (n div 10)") (simp_all add: toDigits.simps [of n])

lemma toDigits_inj: "toDigits m = toDigits n \<Longrightarrow> m = n"
proof (induction m arbitrary: n rule: toDigits.induct)
  case (1 m)
  show ?case
  proof (cases "m < 10")
    case m: True
    show ?thesis
    proof (cases "n < 10")
      case True
      with m "1.prems" show ?thesis
        by (simp add: toDigits.simps [of m] toDigits.simps [of n] digit_char_inj)
    next
      case False
      then have "2 \<le> length (toDigits n)" by (simp add: toDigits_long)
      moreover from m have "length (toDigits m) = 1" by (simp add: toDigits.simps [of m])
      ultimately show ?thesis using "1.prems" by simp
    qed
  next
    case m: False
    show ?thesis
    proof (cases "n < 10")
      case True
      then have "length (toDigits n) = 1" by (simp add: toDigits.simps [of n])
      moreover from m have "2 \<le> length (toDigits m)" by (simp add: toDigits_long)
      ultimately show ?thesis using "1.prems" by simp
    next
      case False
      with m "1.prems" have eq: "toDigits (m div 10) = toDigits (n div 10)"
        and dg: "digit_char (m mod 10) = digit_char (n mod 10)"
        by (simp_all add: toDigits.simps [of m] toDigits.simps [of n])
      from "1.IH" [OF m eq] have "m div 10 = n div 10" .
      moreover from dg have "m mod 10 = n mod 10" by (simp add: digit_char_inj)
      ultimately show ?thesis by (metis div_mult_mod_eq)
    qed
  qed
qed

lemma toString_codes: "c \<in> set (toString i) \<Longrightarrow> 45 \<le> (of_char c :: nat)"
  using toDigits_codes [of c] by (fastforce simp add: toString_def split: if_splits)

lemma toDigits_no_minus: "hd (toDigits n) \<noteq> CHR ''-''"
proof -
  have "hd (toDigits n) \<in> set (toDigits n)" by (simp add: toDigits_not_Nil)
  then have "48 \<le> (of_char (hd (toDigits n)) :: nat)" by (rule toDigits_codes)
  then show ?thesis by auto
qed

lemma toString_inj:
  assumes eq: "toString i = toString j"
  shows "i = j"
proof (cases "i < 0")
  case i: True
  show ?thesis
  proof (cases "j < 0")
    case True
    with i eq have "nat (- i) = nat (- j)" by (simp add: toString_def toDigits_inj)
    with i True show ?thesis by simp
  next
    case False
    with i eq have "CHR ''-'' # toDigits (nat (- i)) = toDigits (nat j)"
      by (simp add: toString_def)
    then have "hd (toDigits (nat j)) = CHR ''-''" by (metis list.sel(1))
    with toDigits_no_minus show ?thesis by simp
  qed
next
  case i: False
  show ?thesis
  proof (cases "j < 0")
    case True
    with i eq have "toDigits (nat i) = CHR ''-'' # toDigits (nat (- j))"
      by (simp add: toString_def)
    then have "hd (toDigits (nat i)) = CHR ''-''" by (metis list.sel(1))
    with toDigits_no_minus show ?thesis by simp
  next
    case False
    with i eq have "nat i = nat j" by (simp add: toString_def toDigits_inj)
    with i False show ?thesis by simp
  qed
qed

lemma toString_no_comma: "CHR '','' \<notin> set (toString i)"
  using toString_codes [of "CHR '',''" i] by auto

lemma comma_split:
  assumes "a @ CHR '','' # b = c @ CHR '','' # d"
    and "CHR '','' \<notin> set a" and "CHR '','' \<notin> set c"
  shows "a = c \<and> b = d"
proof -
  from assms(2) have "\<forall>ch\<in>set a. ch \<noteq> CHR '',''" by auto
  then have "takeWhile (\<lambda>ch. ch \<noteq> CHR '','') (a @ CHR '','' # b) = a"
    by (simp add: takeWhile_append2)
  moreover from assms(3) have "\<forall>ch\<in>set c. ch \<noteq> CHR '',''" by auto
  then have "takeWhile (\<lambda>ch. ch \<noteq> CHR '','') (c @ CHR '','' # d) = c"
    by (simp add: takeWhile_append2)
  ultimately have "a = c" using assms(1) by simp
  with assms(1) show ?thesis by simp
qed

lemma key_inj: "key p = key q \<longleftrightarrow> p = q"
proof
  assume "key p = key q"
  then have "toString (x p) = toString (x q) \<and> toString (y p) = toString (y q)"
    unfolding key_def using comma_split [OF _ toString_no_comma toString_no_comma] by simp
  then show "p = q" by (simp add: toString_inj)
qed simp

section \<open>Cells, keys and random indices\<close>

lemma point_eq_iff: "(x p = x q \<and> y p = y q) \<longleftrightarrow> p = (q :: point)"
  by auto

lemma hits_iff: "hits ps q \<longleftrightarrow> q \<in> set ps"
  by (auto simp add: hits_def list_ex_iff point_eq_iff)

lemma onFood_iff: "onFood f q \<longleftrightarrow> f = Some q"
  by (cases f) (auto simp add: onFood_def)

lemma rand_index_less:
  assumes "0 < n"
  shows "rand_index r n < n"
proof -
  have r: "0 \<le> Rep_rand r" "Rep_rand r < 1"
    using Rep_rand [of r] by simp_all
  from r(1) have nonneg: "0 \<le> Rep_rand r * real n" by simp
  from r(2) assms have "Rep_rand r * real n < real n" by simp
  then have "\<lfloor>Rep_rand r * real n\<rfloor> < int n" by (simp add: floor_less_iff)
  moreover from nonneg have "0 \<le> \<lfloor>Rep_rand r * real n\<rfloor>" by simp
  ultimately show ?thesis unfolding rand_index_def by linarith
qed

lemma set_free_cells:
  "set (free_cells occupied c r) =
     {p. 0 \<le> x p \<and> x p < c \<and> 0 \<le> y p \<and> y p < r \<and> key p \<notin> set occupied}"
proof (rule set_eqI)
  fix p :: point
  have "p = \<lparr>x = x p, y = y p\<rparr>" by simp
  show "p \<in> set (free_cells occupied c r) \<longleftrightarrow>
        p \<in> {p. 0 \<le> x p \<and> x p < c \<and> 0 \<le> y p \<and> y p < r \<and> key p \<notin> set occupied}"
    unfolding free_cells_def
    by (cases p) (auto split: if_splits)
qed

lemma occupied_iff:
  "key p \<in> set (map key ps) \<longleftrightarrow> p \<in> set ps"
  by (auto simp add: key_inj)

lemma placeFood_eq: "placeFood r g = g\<lparr>food := food (placeFood r g)\<rparr>"
  by (simp add: placeFood_def Let_def)

lemma placeFood_fields [simp]:
  "snake (placeFood r g) = snake g"
  "obstacles (placeFood r g) = obstacles g"
  "score (placeFood r g) = score g"
  "growAmount (placeFood r g) = growAmount g"
  "over (placeFood r g) = over g"
  "direction (placeFood r g) = direction g"
  "nextDirection (placeFood r g) = nextDirection g"
  "cols (placeFood r g) = cols g"
  "rows (placeFood r g) = rows g"
  "obstacleCount (placeFood r g) = obstacleCount g"
  by (simp_all add: placeFood_def Let_def)

lemma set_free_placeFood:
  "set (free_cells (map key (snake g) @ map key (obstacles g)) (cols g) (rows g)) = {p. free_cell g p}"
  by (auto simp add: set_free_cells free_cell_def in_grid_def key_inj)

lemma placeFood_free:
  "(\<exists>p. free_cell g p) \<Longrightarrow> \<exists>p. food (placeFood r g) = Some p \<and> free_cell g p"
proof -
  let ?free = "free_cells (map key (snake g) @ map key (obstacles g)) (cols g) (rows g)"
  assume "\<exists>p. free_cell g p"
  then have "set ?free \<noteq> {}" by (simp add: set_free_placeFood)
  then have len: "0 < length ?free" by auto
  then have "rand_index r (length ?free) < length ?free" by (rule rand_index_less)
  then have "?free ! rand_index r (length ?free) \<in> set ?free" by (rule nth_mem)
  then have "free_cell g (?free ! rand_index r (length ?free))"
    by (simp add: set_free_placeFood)
  with len show ?thesis by (simp add: placeFood_def Let_def)
qed

lemma placeFood_full:
  "\<not> (\<exists>p. free_cell g p) \<Longrightarrow> food (placeFood r g) = None"
proof -
  let ?free = "free_cells (map key (snake g) @ map key (obstacles g)) (cols g) (rows g)"
  assume "\<not> (\<exists>p. free_cell g p)"
  then have "set ?free = {}" by (simp add: set_free_placeFood)
  then show ?thesis by (simp add: placeFood_def Let_def)
qed

lemma placeFood_bounded_eq: "placeFood_bounded r b = b\<lparr>food := food (placeFood_bounded r b)\<rparr>"
  by (simp add: placeFood_bounded_def Let_def)

lemma placeFood_bounded_fields [simp]:
  "snake (placeFood_bounded r b) = snake b"
  "score (placeFood_bounded r b) = score b"
  "growAmount (placeFood_bounded r b) = growAmount b"
  "over (placeFood_bounded r b) = over b"
  "direction (placeFood_bounded r b) = direction b"
  "nextDirection (placeFood_bounded r b) = nextDirection b"
  "cols (placeFood_bounded r b) = cols b"
  "rows (placeFood_bounded r b) = rows b"
  by (simp_all add: placeFood_bounded_def Let_def)

lemma set_free_placeFood_bounded:
  "set (free_cells (map key (snake b)) (cols b) (rows b)) = {p. free_cell_bounded b p}"
  by (auto simp add: set_free_cells free_cell_bounded_def in_grid_def key_inj)

lemma placeFood_bounded_free:
  "(\<exists>p. free_cell_bounded b p) \<Longrightarrow>
   \<exists>p. food (placeFood_bounded r b) = Some p \<and> free_cell_bounded b p"
proof -
  let ?free = "free_cells (map key (snake b)) (cols b) (rows b)"
  assume "\<exists>p. free_cell_bounded b p"
  then have "set ?free \<noteq> {}" by (simp add: set_free_placeFood_bounded)
  then have len: "0 < length ?free" by auto
  then have "rand_index r (length ?free) < length ?free" by (rule rand_index_less)
  then have "?free ! rand_index r (length ?free) \<in> set ?free" by (rule nth_mem)
  then have "free_cell_bounded b (?free ! rand_index r (length ?free))"
    by (simp add: set_free_placeFood_bounded)
  with len show ?thesis by (simp add: placeFood_bounded_def Let_def)
qed

lemma placeFood_bounded_full:
  "\<not> (\<exists>p. free_cell_bounded b p) \<Longrightarrow> food (placeFood_bounded r b) = None"
proof -
  let ?free = "free_cells (map key (snake b)) (cols b) (rows b)"
  assume "\<not> (\<exists>p. free_cell_bounded b p)"
  then have "set ?free = {}" by (simp add: set_free_placeFood_bounded)
  then show ?thesis by (simp add: placeFood_bounded_def Let_def)
qed

section \<open>Food placement lands on a free cell\<close>

text \<open>
  Claim C6. After \<^verbatim>\<open>placeFood()\<close>, whatever number \<^verbatim>\<open>Math.random()\<close>
  returned: if some cell of the grid holds neither a segment of the snake nor an obstacle,
  the food is such a cell; if there is none, the food is \<^verbatim>\<open>null\<close>. No other field
  changes. The same holds in the variant with walls, which has no obstacles.
\<close>

theorem placeFood_picks_free_cell:
  "((\<exists>p. free_cell g p) \<longrightarrow>
      (\<exists>p. free_cell g p \<and> placeFood r g = g\<lparr>food := Some p\<rparr>)) \<and>
   (\<not> (\<exists>p. free_cell g p) \<longrightarrow> placeFood r g = g\<lparr>food := None\<rparr>) \<and>
   ((\<exists>p. free_cell_bounded b p) \<longrightarrow>
      (\<exists>p. free_cell_bounded b p \<and> placeFood_bounded r b = b\<lparr>food := Some p\<rparr>)) \<and>
   (\<not> (\<exists>p. free_cell_bounded b p) \<longrightarrow> placeFood_bounded r b = b\<lparr>food := None\<rparr>)"
proof (intro conjI impI)
  assume "\<exists>p. free_cell g p"
  then obtain p where "food (placeFood r g) = Some p" and "free_cell g p"
    using placeFood_free by blast
  then show "\<exists>p. free_cell g p \<and> placeFood r g = g\<lparr>food := Some p\<rparr>"
    using placeFood_eq [of r g] by auto
next
  assume "\<not> (\<exists>p. free_cell g p)"
  then have "food (placeFood r g) = None" by (rule placeFood_full)
  then show "placeFood r g = g\<lparr>food := None\<rparr>"
    using placeFood_eq [of r g] by simp
next
  assume "\<exists>p. free_cell_bounded b p"
  then obtain p where "food (placeFood_bounded r b) = Some p" and "free_cell_bounded b p"
    using placeFood_bounded_free by blast
  then show "\<exists>p. free_cell_bounded b p \<and> placeFood_bounded r b = b\<lparr>food := Some p\<rparr>"
    using placeFood_bounded_eq [of r b] by auto
next
  assume "\<not> (\<exists>p. free_cell_bounded b p)"
  then have "food (placeFood_bounded r b) = None" by (rule placeFood_bounded_full)
  then show "placeFood_bounded r b = b\<lparr>food := None\<rparr>"
    using placeFood_bounded_eq [of r b] by simp
qed

lemma ring_game_free: "free_cell ring_game \<lparr>x = 2, y = 0\<rparr>"
  by (simp add: free_cell_def in_grid_def ring_game_def)

lemma edge_bgame_free: "free_cell_bounded edge_bgame \<lparr>x = 0, y = 0\<rparr>"
  by (simp add: free_cell_bounded_def in_grid_def edge_bgame_def)

lemma two_cells:
  assumes "0 \<le> x p" and "x p < 2" and "0 \<le> y p" and "y p < 1"
  shows "p = \<lparr>x = 0, y = 0\<rparr> \<or> p = \<lparr>x = 1, y = 0\<rparr>"
proof -
  from assms have "x p = 0 \<or> x p = 1" and "y p = 0" by auto
  then show ?thesis by (cases p) auto
qed

lemma full_game_no_free: "\<not> (\<exists>p. free_cell full_game p)"
proof
  assume "\<exists>p. free_cell full_game p"
  then obtain p where p: "free_cell full_game p" ..
  then have "p = \<lparr>x = 0, y = 0\<rparr> \<or> p = \<lparr>x = 1, y = 0\<rparr>"
    by (intro two_cells) (simp_all add: free_cell_def in_grid_def full_game_def)
  with p show False
    by (auto simp add: free_cell_def full_game_def)
qed

lemma full_bgame_no_free: "\<not> (\<exists>p. free_cell_bounded full_bgame p)"
proof
  assume "\<exists>p. free_cell_bounded full_bgame p"
  then obtain p where p: "free_cell_bounded full_bgame p" ..
  then have "p = \<lparr>x = 0, y = 0\<rparr> \<or> p = \<lparr>x = 1, y = 0\<rparr>"
    by (intro two_cells) (simp_all add: free_cell_bounded_def in_grid_def full_bgame_def)
  with p show False
    by (auto simp add: free_cell_bounded_def full_bgame_def)
qed

theorem placeFood_picks_free_cell_witness:
  "(\<exists>p. free_cell ring_game p) \<and>
   (\<exists>p. free_cell ring_game p \<and> placeFood rand_half ring_game = ring_game\<lparr>food := Some p\<rparr>) \<and>
   \<not> (\<exists>p. free_cell full_game p) \<and>
   placeFood rand_half full_game = full_game\<lparr>food := None\<rparr> \<and>
   (\<exists>p. free_cell_bounded edge_bgame p) \<and>
   (\<exists>p. free_cell_bounded edge_bgame p \<and>
        placeFood_bounded rand_half edge_bgame = edge_bgame\<lparr>food := Some p\<rparr>) \<and>
   \<not> (\<exists>p. free_cell_bounded full_bgame p) \<and>
   placeFood_bounded rand_half full_bgame = full_bgame\<lparr>food := None\<rparr>"
  using placeFood_picks_free_cell [of ring_game rand_half edge_bgame]
    placeFood_picks_free_cell [of full_game rand_half full_bgame]
    ring_game_free full_game_no_free edge_bgame_free full_bgame_no_free
  by blast

section \<open>The cases of a tick\<close>

lemma step_over:
  "over g \<Longrightarrow> step r g = (g, Inr \<lparr>ate = False, died = True, reason = None\<rparr>)"
  by (simp add: step_def)

lemma step_bounded_over:
  "over b \<Longrightarrow> step_bounded r b = (b, Inr \<lparr>ate = False, died = True, reason = None\<rparr>)"
  by (simp add: step_bounded_def)

lemma step_empty:
  "\<not> over g \<Longrightarrow> snake g = [] \<Longrightarrow> step r g = (g\<lparr>direction := nextDirection g\<rparr>, Inl TypeError)"
  by (simp add: step_def)

lemma step_bounded_empty:
  "\<not> over b \<Longrightarrow> snake b = [] \<Longrightarrow>
   step_bounded r b = (b\<lparr>direction := nextDirection b\<rparr>, Inl TypeError)"
  by (simp add: step_bounded_def)

lemma step_obstacle:
  "\<not> over g \<Longrightarrow> snake g \<noteq> [] \<Longrightarrow> candidate g \<in> set (obstacles g) \<Longrightarrow>
   step r g = (g\<lparr>direction := nextDirection g, over := True\<rparr>, Inr (fatal Obstacle))"
  by (cases "snake g") (simp_all add: step_def candidate_def hits_iff fatal_def Let_def)

lemma step_self:
  "\<not> over g \<Longrightarrow> snake g \<noteq> [] \<Longrightarrow> candidate g \<notin> set (obstacles g) \<Longrightarrow>
   candidate g \<in> set (snake g) \<Longrightarrow>
   step r g = (g\<lparr>direction := nextDirection g, over := True\<rparr>, Inr (fatal Self))"
  by (cases "snake g") (simp_all add: step_def candidate_def hits_iff fatal_def Let_def)

lemma step_bounded_wall:
  "\<not> over b \<Longrightarrow> snake b \<noteq> [] \<Longrightarrow> \<not> in_grid b (candidate_bounded b) \<Longrightarrow>
   step_bounded r b = (b\<lparr>direction := nextDirection b, over := True\<rparr>, Inr (fatal Wall))"
  by (cases "snake b")
    (auto simp add: step_bounded_def candidate_bounded_def outside_def in_grid_def fatal_def Let_def)

lemma step_bounded_self:
  "\<not> over b \<Longrightarrow> snake b \<noteq> [] \<Longrightarrow> in_grid b (candidate_bounded b) \<Longrightarrow>
   candidate_bounded b \<in> set (snake b) \<Longrightarrow>
   step_bounded r b = (b\<lparr>direction := nextDirection b, over := True\<rparr>, Inr (fatal Self))"
  by (cases "snake b")
    (auto simp add: step_bounded_def candidate_bounded_def outside_def in_grid_def hits_iff fatal_def Let_def)

lemma step_plain:
  "\<not> over g \<Longrightarrow> snake g \<noteq> [] \<Longrightarrow> candidate g \<notin> set (obstacles g) \<Longrightarrow>
   candidate g \<notin> set (snake g) \<Longrightarrow> food g \<noteq> Some (candidate g) \<Longrightarrow> growAmount g = 0 \<Longrightarrow>
   step r g = (g\<lparr>direction := nextDirection g, snake := candidate g # butlast (snake g)\<rparr>,
               Inr \<lparr>ate = False, died = False, reason = None\<rparr>)"
  by (cases "snake g")
     (simp_all add: step_def candidate_def hits_iff onFood_iff Let_def)

lemma step_eat:
  "\<not> over g \<Longrightarrow> snake g \<noteq> [] \<Longrightarrow> candidate g \<notin> set (obstacles g) \<Longrightarrow>
   candidate g \<notin> set (snake g) \<Longrightarrow> food g = Some (candidate g) \<Longrightarrow> growAmount g = 0 \<Longrightarrow>
   step r g =
     ((placeFood r (g\<lparr>direction := nextDirection g, snake := candidate g # snake g,
                       score := score g + 1, growAmount := 1\<rparr>))\<lparr>growAmount := 0\<rparr>,
      Inr \<lparr>ate = True, died = False, reason = None\<rparr>)"
  by (cases "snake g")
     (simp_all add: step_def candidate_def hits_iff onFood_iff Let_def)

lemma step_bounded_plain:
  "\<not> over b \<Longrightarrow> snake b \<noteq> [] \<Longrightarrow> in_grid b (candidate_bounded b) \<Longrightarrow>
   candidate_bounded b \<notin> set (snake b) \<Longrightarrow> food b \<noteq> Some (candidate_bounded b) \<Longrightarrow>
   growAmount b = 0 \<Longrightarrow>
   step_bounded r b =
     (b\<lparr>direction := nextDirection b, snake := candidate_bounded b # butlast (snake b)\<rparr>,
      Inr \<lparr>ate = False, died = False, reason = None\<rparr>)"
  by (cases "snake b")
     (auto simp add: step_bounded_def candidate_bounded_def outside_def in_grid_def hits_iff
        onFood_iff Let_def)

lemma step_bounded_eat:
  "\<not> over b \<Longrightarrow> snake b \<noteq> [] \<Longrightarrow> in_grid b (candidate_bounded b) \<Longrightarrow>
   candidate_bounded b \<notin> set (snake b) \<Longrightarrow> food b = Some (candidate_bounded b) \<Longrightarrow>
   growAmount b = 0 \<Longrightarrow>
   step_bounded r b =
     ((placeFood_bounded r (b\<lparr>direction := nextDirection b, snake := candidate_bounded b # snake b,
                       score := score b + 1, growAmount := 1\<rparr>))\<lparr>growAmount := 0\<rparr>,
      Inr \<lparr>ate = True, died = False, reason = None\<rparr>)"
  by (cases "snake b")
     (auto simp add: step_bounded_def candidate_bounded_def outside_def in_grid_def hits_iff
        onFood_iff Let_def)

lemma step_score:
  "step r g = (g', res) \<Longrightarrow>
   score g' = (case res of Inl e \<Rightarrow> score g | Inr out \<Rightarrow> if ate out then score g + 1 else score g)"
  by (auto simp add: step_def Let_def split: if_splits list.splits)

lemma step_bounded_score:
  "step_bounded r b = (b', res) \<Longrightarrow>
   score b' = (case res of Inl e \<Rightarrow> score b | Inr out \<Rightarrow> if ate out then score b + 1 else score b)"
  by (auto simp add: step_bounded_def Let_def split: if_splits list.splits)

lemma step_config:
  "cols (fst (step r g)) = cols g" "rows (fst (step r g)) = rows g"
  "obstacles (fst (step r g)) = obstacles g" "obstacleCount (fst (step r g)) = obstacleCount g"
  by (auto simp add: step_def Let_def split: if_splits list.splits)

lemma step_bounded_config:
  "cols (fst (step_bounded r b)) = cols b" "rows (fst (step_bounded r b)) = rows b"
  by (auto simp add: step_bounded_def Let_def split: if_splits list.splits)

section \<open>What every state of the engine satisfies\<close>

lemma step_returns: "snake g \<noteq> [] \<Longrightarrow> \<exists>out. snd (step r g) = Inr out"
  by (cases "snake g") (simp_all add: step_def Let_def)

lemma step_bounded_returns: "snake b \<noteq> [] \<Longrightarrow> \<exists>out. snd (step_bounded r b) = Inr out"
  by (cases "snake b") (simp_all add: step_bounded_def Let_def)

lemma step_growAmount: "growAmount g = 0 \<Longrightarrow> growAmount (fst (step r g)) = 0"
  by (auto simp add: step_def Let_def split: if_splits list.splits)

lemma step_bounded_growAmount: "growAmount b = 0 \<Longrightarrow> growAmount (fst (step_bounded r b)) = 0"
  by (auto simp add: step_bounded_def Let_def split: if_splits list.splits)

lemma step_snake_not_Nil: "snake g \<noteq> [] \<Longrightarrow> growAmount g = 0 \<Longrightarrow> snake (fst (step r g)) \<noteq> []"
  by (cases "snake g") (auto simp add: step_def Let_def split: if_splits)

lemma step_bounded_snake_not_Nil:
  "snake b \<noteq> [] \<Longrightarrow> growAmount b = 0 \<Longrightarrow> snake (fst (step_bounded r b)) \<noteq> []"
  by (cases "snake b") (auto simp add: step_bounded_def Let_def split: if_splits)

lemma engine_inv_step: "engine_inv g \<Longrightarrow> engine_inv (fst (step r g))"
  by (simp add: engine_inv_def step_growAmount step_snake_not_Nil)

lemma engine_inv_step_bounded: "engine_inv b \<Longrightarrow> engine_inv (fst (step_bounded r b))"
  by (simp add: engine_inv_def step_bounded_growAmount step_bounded_snake_not_Nil)

lemma engine_inv_setDirection: "engine_inv g \<Longrightarrow> engine_inv (setDirection d g)"
  by (simp add: engine_inv_def setDirection_def)

lemma step_snake_subset:
  "set (snake (fst (step r g))) \<subseteq> set (snake g) \<union> ({candidate g} - set (obstacles g))"
  by (cases "snake g")
    (auto simp add: step_def Let_def candidate_def hits_iff dest: in_set_butlastD split: if_splits)

lemma snake_clear_step: "snake_clear g \<Longrightarrow> snake_clear (fst (step r g))"
  using step_snake_subset [of r g] by (auto simp add: snake_clear_def step_config)

lemma snake_clear_setDirection: "snake_clear g \<Longrightarrow> snake_clear (setDirection d g)"
  by (simp add: snake_clear_def setDirection_def)

lemma valid_config_step: "valid_config (fst (step r g)) = valid_config g"
  by (simp add: valid_config_def step_config)

lemma valid_config_step_bounded: "valid_config (fst (step_bounded r b)) = valid_config b"
  by (simp add: valid_config_def step_bounded_config)

lemma valid_config_setDirection: "valid_config (setDirection d g) = valid_config g"
  by (simp add: valid_config_def setDirection_def)

lemma obstacleLoop_subset:
  "set (obstacleLoop rnd i count free obs) \<subseteq> set obs \<union> set free"
proof (induction rnd i count free obs rule: obstacleLoop.induct)
  case (1 rnd i count free obs)
  show ?case
  proof (cases "int i < count \<and> length free > 0")
    case False
    then show ?thesis by (subst obstacleLoop.simps) auto
  next
    case True
    let ?idx = "rand_index (rnd i) (length free)"
    from True have idx: "?idx < length free" by (simp add: rand_index_less)
    have rest: "set (take ?idx free @ drop (?idx + 1) free) \<subseteq> set free"
      by (auto dest: in_set_takeD in_set_dropD)
    from idx have pos: "free ! ?idx \<in> set free" by simp
    from "1.IH" [OF True refl refl]
    have "set (obstacleLoop rnd (i + 1) count (take ?idx free @ drop (?idx + 1) free)
            (obs @ [free ! ?idx]))
          \<subseteq> set (obs @ [free ! ?idx]) \<union> set (take ?idx free @ drop (?idx + 1) free)" .
    with rest pos True show ?thesis
      by (subst obstacleLoop.simps) (auto simp add: Let_def)
  qed
qed

lemma generateObstacles_fields [simp]:
  "snake (generateObstacles rnd n g) = snake g"
  "score (generateObstacles rnd n g) = score g"
  "growAmount (generateObstacles rnd n g) = growAmount g"
  "over (generateObstacles rnd n g) = over g"
  "direction (generateObstacles rnd n g) = direction g"
  "nextDirection (generateObstacles rnd n g) = nextDirection g"
  "cols (generateObstacles rnd n g) = cols g"
  "rows (generateObstacles rnd n g) = rows g"
  "obstacleCount (generateObstacles rnd n g) = obstacleCount g"
  by (simp_all add: generateObstacles_def Let_def)

lemma generateObstacles_clear: "snake_clear (generateObstacles rnd n g)"
proof (cases "n = 0 \<or> n \<le> 0")
  case True
  then show ?thesis by (simp add: generateObstacles_def snake_clear_def)
next
  case False
  let ?free = "free_cells (map key (snake g)) (cols g) (rows g)"
  have "set (obstacleLoop rnd 0 n ?free []) \<subseteq> set ?free"
    using obstacleLoop_subset [of rnd 0 n ?free "[]"] by simp
  moreover have "set ?free \<inter> set (snake g) = {}"
    by (auto simp add: set_free_cells key_inj)
  ultimately show ?thesis using False
    by (auto simp add: generateObstacles_def snake_clear_def Let_def)
qed

lemma reset_fields:
  "snake (reset rnd r g) =
     [\<lparr>x = cols g div 2, y = rows g div 2\<rparr>,
      \<lparr>x = cols g div 2 - 1, y = rows g div 2\<rparr>,
      \<lparr>x = cols g div 2 - 2, y = rows g div 2\<rparr>]"
  "direction (reset rnd r g) = \<lparr>x = 1, y = 0\<rparr>"
  "nextDirection (reset rnd r g) = \<lparr>x = 1, y = 0\<rparr>"
  "score (reset rnd r g) = 0"
  "over (reset rnd r g) = False"
  "growAmount (reset rnd r g) = 0"
  "cols (reset rnd r g) = cols g"
  "rows (reset rnd r g) = rows g"
  "obstacleCount (reset rnd r g) = obstacleCount g"
  by (simp_all add: reset_def Let_def)

lemma reset_bounded_fields:
  "snake (reset_bounded r b) =
     [\<lparr>x = cols b div 2, y = rows b div 2\<rparr>,
      \<lparr>x = cols b div 2 - 1, y = rows b div 2\<rparr>,
      \<lparr>x = cols b div 2 - 2, y = rows b div 2\<rparr>]"
  "direction (reset_bounded r b) = \<lparr>x = 1, y = 0\<rparr>"
  "nextDirection (reset_bounded r b) = \<lparr>x = 1, y = 0\<rparr>"
  "score (reset_bounded r b) = 0"
  "over (reset_bounded r b) = False"
  "growAmount (reset_bounded r b) = 0"
  "cols (reset_bounded r b) = cols b"
  "rows (reset_bounded r b) = rows b"
  by (simp_all add: reset_bounded_def Let_def)

lemma engine_inv_reset: "engine_inv (reset rnd r g)"
  by (simp add: engine_inv_def reset_fields)

lemma engine_inv_reset_bounded: "engine_inv (reset_bounded r b)"
  by (simp add: engine_inv_def reset_bounded_fields)

lemma snake_clear_placeFood: "snake_clear (placeFood r g) = snake_clear g"
  by (simp add: snake_clear_def)

lemma snake_clear_reset: "snake_clear (reset rnd r g)"
  by (simp add: reset_def Let_def snake_clear_placeFood generateObstacles_clear)

lemma valid_config_reset: "valid_config (reset rnd r g) = valid_config g"
  by (simp add: valid_config_def reset_fields)

lemma valid_config_reset_bounded: "valid_config (reset_bounded r b) = valid_config b"
  by (simp add: valid_config_def reset_bounded_fields)

section \<open>Runs stay within the states of the engine\<close>

text \<open>
  From a state of the engine, every call of \<^verbatim>\<open>step()\<close> in a run returns (none
  throws), and the run ends in a state of the engine.
\<close>

lemma run_engine_inv:
  "engine_inv g \<Longrightarrow> snake_clear g \<Longrightarrow>
   engine_inv (fst (run cs g)) \<and> snake_clear (fst (run cs g)) \<and>
   length (snd (run cs g)) = length (filter is_step cs)"
proof (induction cs arbitrary: g)
  case Nil
  then show ?case by simp
next
  case (Cons c cs)
  show ?case
  proof (cases c)
    case (Reset rnd r)
    with Cons.IH [of "reset rnd r g"] show ?thesis
      by (simp add: engine_inv_reset snake_clear_reset)
  next
    case (SetDirection d)
    with Cons.IH [of "setDirection d g"] Cons.prems show ?thesis
      by (simp add: engine_inv_setDirection snake_clear_setDirection)
  next
    case (Step r)
    obtain g' res where st: "step r g = (g', res)" by (cases "step r g")
    from Cons.prems(1) have "snake g \<noteq> []" by (simp add: engine_inv_def)
    then obtain out where "snd (step r g) = Inr out" using step_returns by blast
    with st have res: "res = Inr out" by simp
    from Cons.prems engine_inv_step [of g r] snake_clear_step [of g r] st
    have "engine_inv g'" "snake_clear g'" by simp_all
    from Cons.IH [OF this] st res Step show ?thesis
      by (cases "run cs g'") simp
  qed
qed

lemma run_bounded_engine_inv:
  "engine_inv b \<Longrightarrow>
   engine_inv (fst (run_bounded cs b)) \<and>
   length (snd (run_bounded cs b)) = length (filter is_step cs)"
proof (induction cs arbitrary: b)
  case Nil
  then show ?case by simp
next
  case (Cons c cs)
  show ?case
  proof (cases c)
    case (Reset rnd r)
    with Cons.IH [of "reset_bounded r b"] show ?thesis
      by (simp add: engine_inv_reset_bounded)
  next
    case (SetDirection d)
    with Cons.IH [of "setDirection d b"] Cons.prems show ?thesis
      by (simp add: engine_inv_setDirection)
  next
    case (Step r)
    obtain b' res where st: "step_bounded r b = (b', res)" by (cases "step_bounded r b")
    from Cons.prems(1) have "snake b \<noteq> []" by (simp add: engine_inv_def)
    then obtain out where "snd (step_bounded r b) = Inr out"
      using step_bounded_returns by blast
    with st have res: "res = Inr out" by simp
    from Cons.prems engine_inv_step_bounded [of b r] st
    have "engine_inv b'" by simp
    from Cons.IH [OF this] st res Step show ?thesis
      by (cases "run_bounded cs b'") simp
  qed
qed

section \<open>States reached from a reset\<close>

text \<open>
  The states of the engine are the states that a run of calls reaches after a
  \<^verbatim>\<open>reset()\<close>, on a grid of positive size. They all have a snake that is not empty
  and clear of the obstacles, and \<open>growAmount = 0\<close>.
\<close>

lemma run_valid_config: "valid_config (fst (run cs g)) = valid_config g"
proof (induction cs arbitrary: g)
  case Nil
  show ?case by simp
next
  case (Cons c cs)
  show ?case
  proof (cases c)
    case (Reset rnd r)
    with Cons [of "reset rnd r g"] show ?thesis by (simp add: valid_config_reset)
  next
    case (SetDirection d)
    with Cons [of "setDirection d g"] show ?thesis by (simp add: valid_config_setDirection)
  next
    case (Step r)
    obtain g' res where st: "step r g = (g', res)" by (cases "step r g")
    with valid_config_step [of r g] have v: "valid_config g' = valid_config g" by simp
    show ?thesis
    proof (cases res)
      case (Inl e)
      with st Step v show ?thesis by simp
    next
      case (Inr out)
      with st Step v Cons [of g'] show ?thesis by (cases "run cs g'") simp
    qed
  qed
qed

lemma reached_state:
  assumes "valid_config prev" and "g = fst (run cs (reset rnd rf prev))"
  shows "engine_inv g" and "snake_clear g" and "valid_config g"
  using assms run_engine_inv [OF engine_inv_reset snake_clear_reset, of cs rnd rf prev]
  by (simp_all add: run_valid_config valid_config_reset)

lemma reached_state_bounded:
  assumes "b = fst (run_bounded cs (reset_bounded rf bprev))"
  shows "engine_inv b"
  using assms run_bounded_engine_inv [OF engine_inv_reset_bounded, of cs rf bprev] by simp

lemma step_js_state: "fst (step_js r g) = fst (step r g)"
  by (cases "snake g") (simp_all add: step_js_def step_def Let_def)

lemma step_js_died:
  "(case snd (step_js r g) of Inl e \<Rightarrow> snd (step r g) = Inl e
    | Inr ev \<Rightarrow> (\<exists>out. snd (step r g) = Inr out \<and> js_died ev = died out \<and>
        js_reason ev = reason out \<and> (js_ate ev = None \<or> js_ate ev = Some (ate out))))"
  by (cases "snake g") (simp_all add: step_js_def step_def Let_def)

lemma step_js_over:
  "over g \<Longrightarrow> step_js r g = (g, Inr \<lparr>js_ate = None, js_died = True, js_reason = None\<rparr>)"
  by (simp add: step_js_def)

lemma reached_ring_game:
  "fst (run coil_calls (reset (\<lambda>i. rand_zero) rand_nine_tenths fresh_game)) = ring_game"
  by code_simp

lemma reached_ring_bgame:
  "fst (run_bounded coil_calls (reset_bounded rand_nine_tenths fresh_bgame)) = ring_bgame"
  by code_simp

section \<open>Fatal ticks\<close>

text \<open>
  Claim C1. In a state that is not over, when the candidate head lies on an obstacle or on
  a segment of the snake (variant with obstacles), or outside the grid or on a segment of
  the snake (variant with walls), \<^verbatim>\<open>step()\<close> returns \<open>died = true\<close> with the
  reason of the check that fired, sets \<open>over\<close>, and leaves the snake, the score, the
  food and the obstacles as they were. The checks run in the order of the code: obstacle
  (or wall) first, then the snake. In the states of the engine no segment of the snake
  lies on an obstacle (\<open>snake_clear_reset\<close>, \<open>snake_clear_step\<close>), so the candidate
  cannot be on both.
\<close>

theorem fatal_tick:
  "(\<not> over g \<and> snake g \<noteq> [] \<and> valid_config g \<and>
      (candidate g \<in> set (obstacles g) \<or> candidate g \<in> set (snake g)) \<longrightarrow>
    (\<exists>g'. step r g =
             (g', Inr (fatal (if candidate g \<in> set (obstacles g) then Obstacle else Self))) \<and>
          over g' \<and> snake g' = snake g \<and> score g' = score g \<and> food g' = food g \<and>
          obstacles g' = obstacles g)) \<and>
   (\<not> over b \<and> snake b \<noteq> [] \<and>
      (\<not> in_grid b (candidate_bounded b) \<or> candidate_bounded b \<in> set (snake b)) \<longrightarrow>
    (\<exists>b'. step_bounded r b =
             (b', Inr (fatal (if \<not> in_grid b (candidate_bounded b) then Wall else Self))) \<and>
          over b' \<and> snake b' = snake b \<and> score b' = score b \<and> food b' = food b))"
proof (intro conjI impI)
  assume h: "\<not> over g \<and> snake g \<noteq> [] \<and> valid_config g \<and>
      (candidate g \<in> set (obstacles g) \<or> candidate g \<in> set (snake g))"
  show "\<exists>g'. step r g =
             (g', Inr (fatal (if candidate g \<in> set (obstacles g) then Obstacle else Self))) \<and>
          over g' \<and> snake g' = snake g \<and> score g' = score g \<and> food g' = food g \<and>
          obstacles g' = obstacles g"
  proof (cases "candidate g \<in> set (obstacles g)")
    case True
    with h show ?thesis by (simp add: step_obstacle)
  next
    case False
    with h show ?thesis by (simp add: step_self)
  qed
next
  assume h: "\<not> over b \<and> snake b \<noteq> [] \<and>
      (\<not> in_grid b (candidate_bounded b) \<or> candidate_bounded b \<in> set (snake b))"
  show "\<exists>b'. step_bounded r b =
             (b', Inr (fatal (if \<not> in_grid b (candidate_bounded b) then Wall else Self))) \<and>
          over b' \<and> snake b' = snake b \<and> score b' = score b \<and> food b' = food b"
  proof (cases "in_grid b (candidate_bounded b)")
    case True
    with h show ?thesis by (simp add: step_bounded_self)
  next
    case False
    with h show ?thesis by (simp add: step_bounded_wall)
  qed
qed

lemma candidate_blocked_game: "candidate blocked_game = \<lparr>x = 6, y = 5\<rparr>"
  by (simp add: candidate_def newHead_def wrap_def js_rem_def blocked_game_def)

lemma candidate_ring_game: "candidate ring_game = \<lparr>x = 2, y = 2\<rparr>"
  by (simp add: candidate_def newHead_def wrap_def js_rem_def ring_game_def)

lemma candidate_edge_bgame: "candidate_bounded edge_bgame = \<lparr>x = - 1, y = 5\<rparr>"
  by (simp add: candidate_bounded_def newHead_bounded_def edge_bgame_def)

lemma candidate_ring_bgame: "candidate_bounded ring_bgame = \<lparr>x = 2, y = 2\<rparr>"
  by (simp add: candidate_bounded_def newHead_bounded_def ring_bgame_def)

theorem fatal_tick_witness:
  "(\<not> over blocked_game \<and> snake blocked_game \<noteq> [] \<and> valid_config blocked_game \<and>
    candidate blocked_game \<in> set (obstacles blocked_game)) \<and>
   (\<exists>g'. step rand_half blocked_game = (g', Inr (fatal Obstacle)) \<and>
         over g' \<and> snake g' = snake blocked_game \<and> score g' = score blocked_game \<and>
         food g' = food blocked_game \<and> obstacles g' = obstacles blocked_game) \<and>
   (\<not> over ring_game \<and> snake ring_game \<noteq> [] \<and> valid_config ring_game \<and>
    candidate ring_game \<notin> set (obstacles ring_game) \<and>
    candidate ring_game \<in> set (snake ring_game)) \<and>
   (\<exists>g'. step rand_half ring_game = (g', Inr (fatal Self)) \<and>
         over g' \<and> snake g' = snake ring_game \<and> score g' = score ring_game \<and>
         food g' = food ring_game \<and> obstacles g' = obstacles ring_game) \<and>
   (\<not> over edge_bgame \<and> snake edge_bgame \<noteq> [] \<and>
    \<not> in_grid edge_bgame (candidate_bounded edge_bgame)) \<and>
   (\<exists>b'. step_bounded rand_half edge_bgame = (b', Inr (fatal Wall)) \<and>
         over b' \<and> snake b' = snake edge_bgame \<and> score b' = score edge_bgame \<and>
         food b' = food edge_bgame) \<and>
   (\<not> over ring_bgame \<and> snake ring_bgame \<noteq> [] \<and>
    in_grid ring_bgame (candidate_bounded ring_bgame) \<and>
    candidate_bounded ring_bgame \<in> set (snake ring_bgame)) \<and>
   (\<exists>b'. step_bounded rand_half ring_bgame = (b', Inr (fatal Self)) \<and>
         over b' \<and> snake b' = snake ring_bgame \<and> score b' = score ring_bgame \<and>
         food b' = food ring_bgame)"
proof -
  have g1: "\<not> over blocked_game \<and> snake blocked_game \<noteq> [] \<and> valid_config blocked_game \<and>
      candidate blocked_game \<in> set (obstacles blocked_game)"
    by (simp add: candidate_blocked_game) (simp add: blocked_game_def valid_config_def)
  have g2: "\<not> over ring_game \<and> snake ring_game \<noteq> [] \<and> valid_config ring_game \<and>
      candidate ring_game \<notin> set (obstacles ring_game) \<and>
      candidate ring_game \<in> set (snake ring_game)"
    by (simp add: candidate_ring_game) (simp add: ring_game_def valid_config_def)
  have b1: "\<not> over edge_bgame \<and> snake edge_bgame \<noteq> [] \<and>
      \<not> in_grid edge_bgame (candidate_bounded edge_bgame)"
    by (simp add: candidate_edge_bgame in_grid_def) (simp add: edge_bgame_def)
  have b2: "\<not> over ring_bgame \<and> snake ring_bgame \<noteq> [] \<and>
      in_grid ring_bgame (candidate_bounded ring_bgame) \<and>
      candidate_bounded ring_bgame \<in> set (snake ring_bgame)"
    by (simp add: candidate_ring_bgame in_grid_def) (simp add: ring_bgame_def)
  from g1 b1 fatal_tick [of blocked_game rand_half edge_bgame]
    g2 b2 fatal_tick [of ring_game rand_half ring_bgame]
  show ?thesis by simp
qed

section \<open>A finished game\<close>

lemma run_steps_over:
  "over g \<Longrightarrow> list_all is_step cs \<Longrightarrow>
   fst (run cs g) = g \<and> length (snd (run cs g)) = length cs \<and>
   list_all (\<lambda>out. died out \<and> \<not> ate out) (snd (run cs g))"
proof (induction cs)
  case Nil
  then show ?case by simp
next
  case (Cons c cs)
  then obtain r where c: "c = Step r" by (cases c) simp_all
  from Cons have "fst (run cs g) = g \<and> length (snd (run cs g)) = length cs \<and>
      list_all (\<lambda>out. died out \<and> \<not> ate out) (snd (run cs g))" by simp
  with Cons.prems(1) c show ?case
    by (cases "run cs g") (simp add: step_over)
qed

lemma run_bounded_steps_over:
  "over b \<Longrightarrow> list_all is_step cs \<Longrightarrow>
   fst (run_bounded cs b) = b \<and> length (snd (run_bounded cs b)) = length cs \<and>
   list_all (\<lambda>out. died out \<and> \<not> ate out) (snd (run_bounded cs b))"
proof (induction cs)
  case Nil
  then show ?case by simp
next
  case (Cons c cs)
  then obtain r where c: "c = Step r" by (cases c) simp_all
  from Cons have "fst (run_bounded cs b) = b \<and> length (snd (run_bounded cs b)) = length cs \<and>
      list_all (\<lambda>out. died out \<and> \<not> ate out) (snd (run_bounded cs b))" by simp
  with Cons.prems(1) c show ?case
    by (cases "run_bounded cs b") (simp add: step_bounded_over)
qed

text \<open>
  Claim C3. Once \<open>over\<close> is set, \<^verbatim>\<open>step()\<close> returns \<open>died = true\<close> and the state
  after the call is the state before it, field by field; so any number of calls of
  \<^verbatim>\<open>step()\<close> in a row leaves the state as it was, each of them returning
  \<open>died = true\<close>. Both variants, and the JavaScript file of the first.
\<close>

theorem finished_game_is_frozen:
  "(over g \<longrightarrow>
      step r g = (g, Inr \<lparr>ate = False, died = True, reason = None\<rparr>) \<and>
      step_js r g = (g, Inr \<lparr>js_ate = None, js_died = True, js_reason = None\<rparr>) \<and>
      (\<forall>cs. list_all is_step cs \<longrightarrow>
         fst (run cs g) = g \<and> length (snd (run cs g)) = length cs \<and>
         list_all (\<lambda>out. died out \<and> \<not> ate out) (snd (run cs g)))) \<and>
   (over b \<longrightarrow>
      step_bounded r b = (b, Inr \<lparr>ate = False, died = True, reason = None\<rparr>) \<and>
      (\<forall>cs. list_all is_step cs \<longrightarrow>
         fst (run_bounded cs b) = b \<and> length (snd (run_bounded cs b)) = length cs \<and>
         list_all (\<lambda>out. died out \<and> \<not> ate out) (snd (run_bounded cs b))))"
  by (simp add: step_over step_js_over step_bounded_over run_steps_over run_bounded_steps_over)

theorem finished_game_is_frozen_witness:
  "over (ring_game\<lparr>over := True\<rparr>) \<and>
   step rand_half (ring_game\<lparr>over := True\<rparr>) =
     (ring_game\<lparr>over := True\<rparr>, Inr \<lparr>ate = False, died = True, reason = None\<rparr>) \<and>
   step_js rand_half (ring_game\<lparr>over := True\<rparr>) =
     (ring_game\<lparr>over := True\<rparr>, Inr \<lparr>js_ate = None, js_died = True, js_reason = None\<rparr>) \<and>
   list_all is_step [Step rand_half, Step rand_zero, Step rand_half] \<and>
   fst (run [Step rand_half, Step rand_zero, Step rand_half] (ring_game\<lparr>over := True\<rparr>)) =
     ring_game\<lparr>over := True\<rparr> \<and>
   over (edge_bgame\<lparr>over := True\<rparr>) \<and>
   step_bounded rand_half (edge_bgame\<lparr>over := True\<rparr>) =
     (edge_bgame\<lparr>over := True\<rparr>, Inr \<lparr>ate = False, died = True, reason = None\<rparr>) \<and>
   fst (run_bounded [Step rand_half, Step rand_zero, Step rand_half] (edge_bgame\<lparr>over := True\<rparr>)) =
     edge_bgame\<lparr>over := True\<rparr>"
proof -
  have o1: "over (ring_game\<lparr>over := True\<rparr>)" by simp
  have o2: "over (edge_bgame\<lparr>over := True\<rparr>)" by simp
  have st: "list_all is_step [Step rand_half, Step rand_zero, Step rand_half]" by simp
  from o1 o2 st
    finished_game_is_frozen [of "ring_game\<lparr>over := True\<rparr>" rand_half "edge_bgame\<lparr>over := True\<rparr>"]
  show ?thesis by blast
qed

section \<open>The tail counts as occupied\<close>

text \<open>
  Claim C4. The check against the snake is made before the tail is removed, on every
  segment. In every state of the engine (a state reached from a \<^verbatim>\<open>reset()\<close> on a
  grid of positive size by any calls) that is not over, the snake is not empty, and a
  candidate head on any segment of the snake, so a candidate head on the cell of the tail
  with \<open>growAmount = 0\<close>, makes \<^verbatim>\<open>step()\<close> return \<open>died = true\<close> with reason
  \<open>self\<close> and set \<open>over\<close>; nothing but \<open>direction\<close> and \<open>over\<close> changes.
\<close>

theorem tail_cell_is_occupied:
  assumes "valid_config prev" and "g = fst (run cs (reset rnd rf prev))" and "\<not> over g"
  shows "snake g \<noteq> [] \<and>
         (candidate g \<in> set (snake g) \<longrightarrow>
            step r g = (g\<lparr>direction := nextDirection g, over := True\<rparr>, Inr (fatal Self))) \<and>
         (growAmount g = 0 \<and> candidate g = last (snake g) \<longrightarrow>
            step r g = (g\<lparr>direction := nextDirection g, over := True\<rparr>, Inr (fatal Self)))"
proof -
  from assms(1,2) have inv: "engine_inv g" and clear: "snake_clear g"
    by (rule reached_state)+
  from inv have ne: "snake g \<noteq> []" by (simp add: engine_inv_def)
  have hit: "step r g = (g\<lparr>direction := nextDirection g, over := True\<rparr>, Inr (fatal Self))"
    if inside: "candidate g \<in> set (snake g)"
  proof -
    from inside clear have "candidate g \<notin> set (obstacles g)"
      by (auto simp add: snake_clear_def)
    with assms(3) ne inside show ?thesis by (simp add: step_self)
  qed
  moreover have "candidate g \<in> set (snake g)" if "candidate g = last (snake g)"
    using that ne by simp
  ultimately show ?thesis using ne by blast
qed

theorem tail_cell_is_occupied_witness:
  "valid_config fresh_game \<and>
   ring_game = fst (run coil_calls (reset (\<lambda>i. rand_zero) rand_nine_tenths fresh_game)) \<and>
   \<not> over ring_game \<and> growAmount ring_game = 0 \<and>
   candidate ring_game = last (snake ring_game) \<and>
   step rand_half ring_game =
     (ring_game\<lparr>direction := nextDirection ring_game, over := True\<rparr>, Inr (fatal Self))"
proof -
  have v: "valid_config fresh_game" by (simp add: valid_config_def fresh_game_def)
  have e: "ring_game = fst (run coil_calls (reset (\<lambda>i. rand_zero) rand_nine_tenths fresh_game))"
    by (simp only: reached_ring_game)
  have h: "\<not> over ring_game" "growAmount ring_game = 0"
    by (simp_all add: ring_game_def)
  have c: "candidate ring_game = last (snake ring_game)"
    by (simp add: candidate_ring_game) (simp add: ring_game_def)
  from h c tail_cell_is_occupied [OF v e h(1), of rand_half] show ?thesis
    using v e by blast
qed

section \<open>Direction input rejects a reversal\<close>

lemma setDirection_direction [simp]: "direction (setDirection d g) = direction g"
  by (simp add: setDirection_def)

lemma setDirection_opposite: "setDirection (opposite (direction g)) g = g"
  by (simp add: setDirection_def opposite_def)

lemma setDirection_other:
  "dir \<noteq> opposite (direction g) \<Longrightarrow> setDirection dir g = g\<lparr>nextDirection := dir\<rparr>"
  by (cases dir) (auto simp add: setDirection_def opposite_def)

lemma setDirections_direction [simp]: "direction (setDirections ds g) = direction g"
  unfolding setDirections_def by (induction ds arbitrary: g) simp_all

lemma setDirections_Cons: "setDirections (d # ds) g = setDirections ds (setDirection d g)"
  by (simp add: setDirections_def)

lemma setDirections_last:
  "nextDirection (setDirections ds g) =
     (let accepted = filter (\<lambda>d. d \<noteq> opposite (direction g)) ds
      in if accepted = [] then nextDirection g else last accepted)"
proof (induction ds arbitrary: g)
  case Nil
  show ?case by (simp add: setDirections_def)
next
  case (Cons d ds)
  show ?case
  proof (cases "d = opposite (direction g)")
    case True
    then have "setDirection d g = g" by (simp add: setDirection_opposite)
    with True Cons [of g] show ?thesis by (simp add: setDirections_Cons Let_def)
  next
    case False
    then have "setDirection d g = g\<lparr>nextDirection := d\<rparr>" by (rule setDirection_other)
    with False Cons [of "g\<lparr>nextDirection := d\<rparr>"] show ?thesis
      by (simp add: setDirections_Cons Let_def)
  qed
qed

lemma unit_vectors_others:
  "d \<in> set unit_vectors \<Longrightarrow>
   opposite d \<in> set unit_vectors \<and> length (filter (\<lambda>e. e \<noteq> opposite d) unit_vectors) = 3"
  by (auto simp add: unit_vectors_def opposite_def)

text \<open>
  Claim C5. \<^verbatim>\<open>setDirection\<close> with the opposite of the current direction changes
  nothing; with any other vector, so with each of the other three unit vectors when the
  direction is a unit vector, it stores the vector in \<open>nextDirection\<close> and changes
  nothing else. The field \<open>direction\<close> is never changed by it. After several calls in a
  row, \<open>nextDirection\<close> is the last vector that was accepted, or what it was before when
  none was. Both variants share the method.
\<close>

theorem setDirection_rejects_reversal:
  "setDirection (opposite (direction g)) g = g \<and>
   (dir \<noteq> opposite (direction g) \<longrightarrow> setDirection dir g = g\<lparr>nextDirection := dir\<rparr>) \<and>
   (direction g \<in> set unit_vectors \<longrightarrow>
      opposite (direction g) \<in> set unit_vectors \<and>
      length (filter (\<lambda>e. e \<noteq> opposite (direction g)) unit_vectors) = 3 \<and>
      (\<forall>e \<in> set unit_vectors. e \<noteq> opposite (direction g) \<longrightarrow>
         nextDirection (setDirection e g) = e)) \<and>
   direction (setDirection dir g) = direction g \<and>
   direction (setDirections ds g) = direction g \<and>
   nextDirection (setDirections ds g) =
     (let accepted = filter (\<lambda>d. d \<noteq> opposite (direction g)) ds
      in if accepted = [] then nextDirection g else last accepted)"
  using setDirections_last [of ds g] unit_vectors_others [of "direction g"]
  by (simp add: setDirection_opposite setDirection_other)

theorem setDirection_rejects_reversal_witness:
  "\<lparr>x = 0, y = - 1\<rparr> \<noteq> opposite (direction blocked_game) \<and>
   setDirection \<lparr>x = 0, y = - 1\<rparr> blocked_game = blocked_game\<lparr>nextDirection := \<lparr>x = 0, y = - 1\<rparr>\<rparr> \<and>
   direction blocked_game \<in> set unit_vectors \<and>
   opposite (direction blocked_game) \<in> set unit_vectors \<and>
   \<lparr>x = 0, y = 1\<rparr> \<in> set unit_vectors \<and> \<lparr>x = 0, y = 1\<rparr> \<noteq> opposite (direction blocked_game) \<and>
   nextDirection (setDirection \<lparr>x = 0, y = 1\<rparr> blocked_game) = \<lparr>x = 0, y = 1\<rparr> \<and>
   nextDirection (setDirections [\<lparr>x = 0, y = 1\<rparr>, \<lparr>x = 0, y = - 1\<rparr>, \<lparr>x = - 1, y = 0\<rparr>] blocked_game) =
     \<lparr>x = 0, y = - 1\<rparr>"
proof -
  have d: "direction blocked_game = \<lparr>x = 1, y = 0\<rparr>" by (simp add: blocked_game_def)
  have h1: "\<lparr>x = 0, y = - 1\<rparr> \<noteq> opposite (direction blocked_game)"
    by (simp add: d opposite_def)
  have h2: "direction blocked_game \<in> set unit_vectors" by (simp add: d unit_vectors_def)
  have h3: "\<lparr>x = 0, y = 1\<rparr> \<in> set unit_vectors" by (simp add: unit_vectors_def)
  have h4: "\<lparr>x = 0, y = 1\<rparr> \<noteq> opposite (direction blocked_game)" by (simp add: d opposite_def)
  have h5: "filter (\<lambda>e. e \<noteq> opposite (direction blocked_game))
              [\<lparr>x = 0, y = 1\<rparr>, \<lparr>x = 0, y = - 1\<rparr>, \<lparr>x = - 1, y = 0\<rparr>] =
            [\<lparr>x = 0, y = 1\<rparr>, \<lparr>x = 0, y = - 1\<rparr>]"
    by (simp add: d opposite_def)
  from h1 h2 h3 h4 h5
    setDirection_rejects_reversal [of blocked_game "\<lparr>x = 0, y = - 1\<rparr>"
      "[\<lparr>x = 0, y = 1\<rparr>, \<lparr>x = 0, y = - 1\<rparr>, \<lparr>x = - 1, y = 0\<rparr>]"]
  show ?thesis by (simp add: Let_def)
qed

section \<open>Wrap-around\<close>

lemma js_rem_pos: "0 < n \<Longrightarrow> js_rem v n = (if 0 \<le> v then v mod n else - ((- v) mod n))"
  by (auto simp add: js_rem_def sgn_if)

lemma wrap_mod:
  assumes "0 < n"
  shows "wrap v n = v mod n"
proof -
  have m: "0 \<le> v mod n" "v mod n < n" "0 \<le> (- v) mod n" "(- v) mod n < n"
    using assms by simp_all
  have bounds: "- n < js_rem v n \<and> js_rem v n < n"
  proof (cases "0 \<le> v")
    case True
    with assms have "js_rem v n = v mod n" by (simp add: js_rem_pos)
    with m show ?thesis by linarith
  next
    case False
    with assms have "js_rem v n = - ((- v) mod n)" by (simp add: js_rem_pos)
    with m show ?thesis by linarith
  qed
  then have "0 \<le> js_rem v n + n" by simp
  with assms have "wrap v n = (js_rem v n + n) mod n"
    by (simp add: wrap_def js_rem_pos)
  also have "\<dots> = js_rem v n mod n" by simp
  also have "\<dots> = v mod n"
    using assms by (simp add: js_rem_pos mod_minus_eq)
  finally show ?thesis .
qed

lemma wrap_range: "0 < n \<Longrightarrow> 0 \<le> wrap v n \<and> wrap v n < n"
  by (simp add: wrap_mod)

lemma newHead_in_grid: "valid_config g \<Longrightarrow> in_grid g (newHead g h)"
  by (simp add: valid_config_def in_grid_def newHead_def Let_def wrap_range)

lemma candidate_in_grid: "valid_config g \<Longrightarrow> in_grid g (candidate g)"
  using newHead_in_grid [of "g\<lparr>direction := nextDirection g\<rparr>" "hd (snake g)"]
  by (simp add: candidate_def valid_config_def in_grid_def)

lemma step_never_wall: "snd (step r g) = Inr out \<Longrightarrow> reason out \<noteq> Some Wall"
  by (auto simp add: step_def Let_def split: if_splits list.splits)

lemma step_moves_head:
  "\<not> over g \<Longrightarrow> snake g \<noteq> [] \<Longrightarrow> candidate g \<notin> set (obstacles g) \<Longrightarrow>
   candidate g \<notin> set (snake g) \<Longrightarrow>
   \<exists>g' out. step r g = (g', Inr out) \<and> \<not> died out \<and> \<not> over g' \<and> hd (snake g') = candidate g"
  by (cases "snake g")
    (auto simp add: step_def candidate_def hits_iff Let_def)

lemma candidate_right_edge:
  assumes "cols g = 24" and "rows g = 24" and "0 \<le> b" and "b < 24"
    and "snake g = \<lparr>x = 23, y = b\<rparr> # body" and "nextDirection g = \<lparr>x = 1, y = 0\<rparr>"
  shows "candidate g = \<lparr>x = 0, y = b\<rparr>"
  using assms by (simp add: candidate_def newHead_def Let_def wrap_mod)

lemma candidate_mod:
  "valid_config g \<Longrightarrow>
   candidate g = \<lparr>x = (x (hd (snake g)) + x (nextDirection g)) mod cols g,
                  y = (y (hd (snake g)) + y (nextDirection g)) mod rows g\<rparr>"
  by (simp add: candidate_def newHead_def Let_def wrap_mod valid_config_def)

lemma step_wraps:
  assumes "valid_config g" and "\<not> over g" and "snake g \<noteq> []"
  shows "\<exists>g' out. step r g = (g', Inr out) \<and>
           (died out \<longleftrightarrow> candidate g \<in> set (obstacles g) \<or> candidate g \<in> set (snake g)) \<and>
           (died out \<longrightarrow> snake g' = snake g) \<and>
           (\<not> died out \<longrightarrow> \<not> over g' \<and> hd (snake g') = candidate g \<and>
              in_grid g (hd (snake g')))"
proof -
  consider (obstacle) "candidate g \<in> set (obstacles g)"
    | (self) "candidate g \<notin> set (obstacles g)" "candidate g \<in> set (snake g)"
    | (move) "candidate g \<notin> set (obstacles g)" "candidate g \<notin> set (snake g)"
    by blast
  then show ?thesis
  proof cases
    case obstacle
    with assms show ?thesis by (simp add: step_obstacle fatal_def)
  next
    case self
    with assms show ?thesis by (simp add: step_self fatal_def)
  next
    case move
    with assms(2,3) obtain g' out where
      "step r g = (g', Inr out)" "\<not> died out" "\<not> over g'" "hd (snake g') = candidate g"
      using step_moves_head [of g r] by blast
    with move candidate_in_grid [OF assms(1)] show ?thesis by simp
  qed
qed

text \<open>
  Claim C7. On a grid of positive size, \<^verbatim>\<open>((v % n) + n) % n\<close> is the floored modulo
  \<open>v mod n\<close>, for negative \<open>v\<close> too, so the candidate head of the variant with
  wrap-around is always a cell of the grid. In every state on such a grid that is not over
  and has a snake, \<^verbatim>\<open>step()\<close> returns, and it reports a death exactly when the
  candidate, the head plus the direction taken modulo the grid size in both coordinates,
  lies on an obstacle or on a segment of the snake, leaving the snake as it was; otherwise
  the new head of the snake is that candidate, a cell of the grid, whatever the sign of the
  sum. On the 24 by 24 grid a head at \<open>(23, b)\<close> moving by \<open>(1, 0)\<close> has the candidate
  \<open>(0, b)\<close>, and when that cell holds neither an obstacle nor a segment of the snake the
  tick moves the head there without a death. A tick of this variant never reports the reason
  \<open>wall\<close>.
\<close>

theorem toroidal_wrap:
  "(0 < n \<longrightarrow> wrap v n = v mod n \<and> 0 \<le> wrap v n \<and> wrap v n < n) \<and>
   (valid_config g \<longrightarrow> in_grid g (newHead g h) \<and> in_grid g (candidate g)) \<and>
   (valid_config g \<and> \<not> over g \<and> snake g \<noteq> [] \<longrightarrow>
      candidate g = \<lparr>x = (x (hd (snake g)) + x (nextDirection g)) mod cols g,
                     y = (y (hd (snake g)) + y (nextDirection g)) mod rows g\<rparr> \<and>
      (\<exists>g' out. step r g = (g', Inr out) \<and>
         (died out \<longleftrightarrow> candidate g \<in> set (obstacles g) \<or> candidate g \<in> set (snake g)) \<and>
         (died out \<longrightarrow> snake g' = snake g) \<and>
         (\<not> died out \<longrightarrow>
            \<not> over g' \<and>
            hd (snake g') = \<lparr>x = (x (hd (snake g)) + x (nextDirection g)) mod cols g,
                             y = (y (hd (snake g)) + y (nextDirection g)) mod rows g\<rparr> \<and>
            0 \<le> x (hd (snake g')) \<and> x (hd (snake g')) < cols g \<and>
            0 \<le> y (hd (snake g')) \<and> y (hd (snake g')) < rows g))) \<and>
   (cols g = 24 \<and> rows g = 24 \<and> 0 \<le> b \<and> b < 24 \<and>
    snake g = \<lparr>x = 23, y = b\<rparr> # body \<and> nextDirection g = \<lparr>x = 1, y = 0\<rparr> \<longrightarrow>
      candidate g = \<lparr>x = 0, y = b\<rparr> \<and>
      (\<not> over g \<and> \<lparr>x = 0, y = b\<rparr> \<notin> set (obstacles g) \<and> \<lparr>x = 0, y = b\<rparr> \<notin> set (snake g) \<longrightarrow>
         (\<exists>g' out. step r g = (g', Inr out) \<and> \<not> died out \<and> \<not> over g' \<and>
                    hd (snake g') = \<lparr>x = 0, y = b\<rparr>))) \<and>
   (\<forall>out. snd (step r g) = Inr out \<longrightarrow> reason out \<noteq> Some Wall)"
proof (intro conjI impI allI)
  assume "0 < n"
  then show "wrap v n = v mod n" "0 \<le> wrap v n" "wrap v n < n"
    by (simp_all add: wrap_mod)
next
  assume "valid_config g"
  then show "in_grid g (newHead g h)" "in_grid g (candidate g)"
    by (simp_all add: newHead_in_grid candidate_in_grid)
next
  assume h: "valid_config g \<and> \<not> over g \<and> snake g \<noteq> []"
  then show c: "candidate g = \<lparr>x = (x (hd (snake g)) + x (nextDirection g)) mod cols g,
                     y = (y (hd (snake g)) + y (nextDirection g)) mod rows g\<rparr>"
    by (simp add: candidate_mod)
  from h obtain g' out where s: "step r g = (g', Inr out)"
    "died out \<longleftrightarrow> candidate g \<in> set (obstacles g) \<or> candidate g \<in> set (snake g)"
    "died out \<longrightarrow> snake g' = snake g"
    "\<not> died out \<longrightarrow> \<not> over g' \<and> hd (snake g') = candidate g \<and> in_grid g (hd (snake g'))"
    using step_wraps [of g r] by blast
  have "\<not> died out \<longrightarrow>
            \<not> over g' \<and>
            hd (snake g') = \<lparr>x = (x (hd (snake g)) + x (nextDirection g)) mod cols g,
                             y = (y (hd (snake g)) + y (nextDirection g)) mod rows g\<rparr> \<and>
            0 \<le> x (hd (snake g')) \<and> x (hd (snake g')) < cols g \<and>
            0 \<le> y (hd (snake g')) \<and> y (hd (snake g')) < rows g"
    using s(4) c by (auto simp add: in_grid_def)
  with s(1,2,3)
  show "\<exists>g' out. step r g = (g', Inr out) \<and>
         (died out \<longleftrightarrow> candidate g \<in> set (obstacles g) \<or> candidate g \<in> set (snake g)) \<and>
         (died out \<longrightarrow> snake g' = snake g) \<and>
         (\<not> died out \<longrightarrow>
            \<not> over g' \<and>
            hd (snake g') = \<lparr>x = (x (hd (snake g)) + x (nextDirection g)) mod cols g,
                             y = (y (hd (snake g)) + y (nextDirection g)) mod rows g\<rparr> \<and>
            0 \<le> x (hd (snake g')) \<and> x (hd (snake g')) < cols g \<and>
            0 \<le> y (hd (snake g')) \<and> y (hd (snake g')) < rows g)"
    by blast
next
  assume h: "cols g = 24 \<and> rows g = 24 \<and> 0 \<le> b \<and> b < 24 \<and>
    snake g = \<lparr>x = 23, y = b\<rparr> # body \<and> nextDirection g = \<lparr>x = 1, y = 0\<rparr>"
  then show c: "candidate g = \<lparr>x = 0, y = b\<rparr>" by (simp add: candidate_right_edge)
  assume "\<not> over g \<and> \<lparr>x = 0, y = b\<rparr> \<notin> set (obstacles g) \<and> \<lparr>x = 0, y = b\<rparr> \<notin> set (snake g)"
  with h c step_moves_head [of g r]
  show "\<exists>g' out. step r g = (g', Inr out) \<and> \<not> died out \<and> \<not> over g' \<and>
                    hd (snake g') = \<lparr>x = 0, y = b\<rparr>"
    by simp
next
  fix out
  assume "snd (step r g) = Inr out"
  then show "reason out \<noteq> Some Wall" by (rule step_never_wall)
qed

lemma corner_game_left_tick:
  "snake (fst (step rand_half corner_game)) =
     [\<lparr>x = 23, y = 0\<rparr>, \<lparr>x = 0, y = 0\<rparr>, \<lparr>x = 1, y = 0\<rparr>]"
  by code_simp

lemma corner_game_up_tick:
  "snake (fst (step rand_half (corner_game\<lparr>nextDirection := \<lparr>x = 0, y = - 1\<rparr>\<rparr>))) =
     [\<lparr>x = 0, y = 23\<rparr>, \<lparr>x = 0, y = 0\<rparr>, \<lparr>x = 1, y = 0\<rparr>]"
  by code_simp

theorem toroidal_wrap_witness:
  "(0 :: int) < 24 \<and> wrap (- 1) 24 = 23 \<and> wrap 24 24 = 0 \<and>
   valid_config border_game \<and> in_grid border_game (candidate border_game) \<and>
   (cols border_game = 24 \<and> rows border_game = 24 \<and> (0 :: int) \<le> 7 \<and> (7 :: int) < 24 \<and>
    snake border_game = \<lparr>x = 23, y = 7\<rparr> # [\<lparr>x = 22, y = 7\<rparr>, \<lparr>x = 21, y = 7\<rparr>] \<and>
    nextDirection border_game = \<lparr>x = 1, y = 0\<rparr>) \<and>
   candidate border_game = \<lparr>x = 0, y = 7\<rparr> \<and>
   (\<not> over border_game \<and> \<lparr>x = 0, y = 7\<rparr> \<notin> set (obstacles border_game) \<and>
    \<lparr>x = 0, y = 7\<rparr> \<notin> set (snake border_game)) \<and>
   (\<exists>g' out. step rand_half border_game = (g', Inr out) \<and> \<not> died out \<and> \<not> over g' \<and>
              hd (snake g') = \<lparr>x = 0, y = 7\<rparr>) \<and>
   (\<exists>out. snd (step rand_half border_game) = Inr out \<and> reason out \<noteq> Some Wall) \<and>
   (valid_config corner_game \<and> \<not> over corner_game \<and> snake corner_game \<noteq> []) \<and>
   candidate corner_game = \<lparr>x = 23, y = 0\<rparr> \<and>
   (\<exists>g' out. step rand_half corner_game = (g', Inr out) \<and> \<not> died out \<and> \<not> over g' \<and>
              hd (snake g') = \<lparr>x = 23, y = 0\<rparr>) \<and>
   (valid_config (corner_game\<lparr>nextDirection := \<lparr>x = 0, y = - 1\<rparr>\<rparr>) \<and>
    \<not> over (corner_game\<lparr>nextDirection := \<lparr>x = 0, y = - 1\<rparr>\<rparr>) \<and>
    snake (corner_game\<lparr>nextDirection := \<lparr>x = 0, y = - 1\<rparr>\<rparr>) \<noteq> []) \<and>
   candidate (corner_game\<lparr>nextDirection := \<lparr>x = 0, y = - 1\<rparr>\<rparr>) = \<lparr>x = 0, y = 23\<rparr> \<and>
   (\<exists>g' out. step rand_half (corner_game\<lparr>nextDirection := \<lparr>x = 0, y = - 1\<rparr>\<rparr>) = (g', Inr out) \<and>
              \<not> died out \<and> \<not> over g' \<and> hd (snake g') = \<lparr>x = 0, y = 23\<rparr>) \<and>
   snake (fst (step rand_half corner_game)) =
     [\<lparr>x = 23, y = 0\<rparr>, \<lparr>x = 0, y = 0\<rparr>, \<lparr>x = 1, y = 0\<rparr>] \<and>
   snake (fst (step rand_half (corner_game\<lparr>nextDirection := \<lparr>x = 0, y = - 1\<rparr>\<rparr>))) =
     [\<lparr>x = 0, y = 23\<rparr>, \<lparr>x = 0, y = 0\<rparr>, \<lparr>x = 1, y = 0\<rparr>]"
proof -
  let ?up = "corner_game\<lparr>nextDirection := \<lparr>x = 0, y = - 1\<rparr>\<rparr>"
  have h0: "(0 :: int) < 24" by simp
  have h1: "valid_config border_game" by (simp add: valid_config_def border_game_def)
  have h2: "cols border_game = 24 \<and> rows border_game = 24 \<and> (0 :: int) \<le> 7 \<and> (7 :: int) < 24 \<and>
    snake border_game = \<lparr>x = 23, y = 7\<rparr> # [\<lparr>x = 22, y = 7\<rparr>, \<lparr>x = 21, y = 7\<rparr>] \<and>
    nextDirection border_game = \<lparr>x = 1, y = 0\<rparr>"
    by (simp add: border_game_def)
  have h3: "\<not> over border_game \<and> \<lparr>x = 0, y = 7\<rparr> \<notin> set (obstacles border_game) \<and>
    \<lparr>x = 0, y = 7\<rparr> \<notin> set (snake border_game)"
    by (simp add: border_game_def)
  have h4: "\<exists>out. snd (step rand_half border_game) = Inr out"
    by (rule step_returns) (simp add: border_game_def)
  note t1 = toroidal_wrap [where n = 24 and v = "- 1" and g = border_game
      and h = "hd (snake border_game)" and b = 7
      and body = "[\<lparr>x = 22, y = 7\<rparr>, \<lparr>x = 21, y = 7\<rparr>]" and r = rand_half]
  note t2 = toroidal_wrap [where n = 24 and v = 24 and g = border_game
      and h = "hd (snake border_game)" and b = 7
      and body = "[\<lparr>x = 22, y = 7\<rparr>, \<lparr>x = 21, y = 7\<rparr>]" and r = rand_half]
  have w1: "wrap (- 1) 24 = 23" using t1 h0 by simp
  have w2: "wrap 24 24 = 0" using t2 h0 by simp
  from t1 h0 h1 h2 h3 h4 w1 w2 have old:
    "in_grid border_game (candidate border_game) \<and>
     candidate border_game = \<lparr>x = 0, y = 7\<rparr> \<and>
     (\<exists>g' out. step rand_half border_game = (g', Inr out) \<and> \<not> died out \<and> \<not> over g' \<and>
              hd (snake g') = \<lparr>x = 0, y = 7\<rparr>) \<and>
     (\<exists>out. snd (step rand_half border_game) = Inr out \<and> reason out \<noteq> Some Wall)"
    by blast
  have c1: "valid_config corner_game \<and> \<not> over corner_game \<and> snake corner_game \<noteq> []"
    by (simp add: valid_config_def corner_game_def)
  have c2: "valid_config ?up \<and> \<not> over ?up \<and> snake ?up \<noteq> []"
    by (simp add: valid_config_def corner_game_def)
  note t3 = toroidal_wrap [where n = 24 and v = "- 1" and g = corner_game
      and h = "hd (snake corner_game)" and b = 0 and body = "[]" and r = rand_half]
  note t4 = toroidal_wrap [where n = 24 and v = "- 1" and g = ?up
      and h = "hd (snake ?up)" and b = 0 and body = "[]" and r = rand_half]
  have m1: "\<lparr>x = (x (hd (snake corner_game)) + x (nextDirection corner_game)) mod cols corner_game,
             y = (y (hd (snake corner_game)) + y (nextDirection corner_game)) mod rows corner_game\<rparr> =
            \<lparr>x = 23, y = 0\<rparr>"
    by (simp add: corner_game_def)
  have m2: "\<lparr>x = (x (hd (snake ?up)) + x (nextDirection ?up)) mod cols ?up,
             y = (y (hd (snake ?up)) + y (nextDirection ?up)) mod rows ?up\<rparr> =
            \<lparr>x = 0, y = 23\<rparr>"
    by (simp add: corner_game_def)
  from t3 c1 have k1: "candidate corner_game = \<lparr>x = 23, y = 0\<rparr>"
    unfolding m1 by blast
  from t4 c2 have k2: "candidate ?up = \<lparr>x = 0, y = 23\<rparr>"
    unfolding m2 by blast
  have f1: "\<not> (candidate corner_game \<in> set (obstacles corner_game) \<or>
               candidate corner_game \<in> set (snake corner_game))"
    by (simp add: k1) (simp add: corner_game_def)
  have f2: "\<not> (candidate ?up \<in> set (obstacles ?up) \<or> candidate ?up \<in> set (snake ?up))"
    by (simp add: k2) (simp add: corner_game_def)
  from t3 c1 f1 have r1: "\<exists>g' out. step rand_half corner_game = (g', Inr out) \<and> \<not> died out \<and>
      \<not> over g' \<and> hd (snake g') = \<lparr>x = 23, y = 0\<rparr>"
    unfolding m1 by blast
  from t4 c2 f2 have r2: "\<exists>g' out. step rand_half ?up = (g', Inr out) \<and> \<not> died out \<and>
      \<not> over g' \<and> hd (snake g') = \<lparr>x = 0, y = 23\<rparr>"
    unfolding m2 by blast
  from h0 w1 w2 h1 h2 h3 old c1 c2 k1 k2 r1 r2 corner_game_left_tick corner_game_up_tick
  show ?thesis by blast
qed

section \<open>The start state\<close>

text \<open>
  Claim C8. After \<^verbatim>\<open>reset()\<close>, whatever the state before and whatever the random
  numbers: the snake has three segments in the row \<open>rows div 2\<close>, its head in the column
  \<open>cols div 2\<close> and the other two to the left of it, \<open>direction\<close> and
  \<open>nextDirection\<close> are \<open>(1, 0)\<close>, the score is 0, \<open>over\<close> is false and
  \<open>growAmount\<close> is 0; the grid size is kept. On a 10 by 10 grid the snake is
  \<open>[(5,5), (4,5), (3,5)]\<close>. Both variants.
\<close>

theorem reset_start_state:
  "snake (reset rnd r g) =
     [\<lparr>x = cols g div 2, y = rows g div 2\<rparr>,
      \<lparr>x = cols g div 2 - 1, y = rows g div 2\<rparr>,
      \<lparr>x = cols g div 2 - 2, y = rows g div 2\<rparr>] \<and>
   direction (reset rnd r g) = \<lparr>x = 1, y = 0\<rparr> \<and>
   nextDirection (reset rnd r g) = \<lparr>x = 1, y = 0\<rparr> \<and>
   score (reset rnd r g) = 0 \<and> \<not> over (reset rnd r g) \<and> growAmount (reset rnd r g) = 0 \<and>
   cols (reset rnd r g) = cols g \<and> rows (reset rnd r g) = rows g \<and>
   (cols g = 10 \<and> rows g = 10 \<longrightarrow>
      snake (reset rnd r g) = [\<lparr>x = 5, y = 5\<rparr>, \<lparr>x = 4, y = 5\<rparr>, \<lparr>x = 3, y = 5\<rparr>]) \<and>
   snake (reset_bounded r b) =
     [\<lparr>x = cols b div 2, y = rows b div 2\<rparr>,
      \<lparr>x = cols b div 2 - 1, y = rows b div 2\<rparr>,
      \<lparr>x = cols b div 2 - 2, y = rows b div 2\<rparr>] \<and>
   direction (reset_bounded r b) = \<lparr>x = 1, y = 0\<rparr> \<and>
   nextDirection (reset_bounded r b) = \<lparr>x = 1, y = 0\<rparr> \<and>
   score (reset_bounded r b) = 0 \<and> \<not> over (reset_bounded r b) \<and>
   growAmount (reset_bounded r b) = 0 \<and>
   cols (reset_bounded r b) = cols b \<and> rows (reset_bounded r b) = rows b \<and>
   (cols b = 10 \<and> rows b = 10 \<longrightarrow>
      snake (reset_bounded r b) = [\<lparr>x = 5, y = 5\<rparr>, \<lparr>x = 4, y = 5\<rparr>, \<lparr>x = 3, y = 5\<rparr>])"
  by (simp add: reset_fields reset_bounded_fields)

theorem reset_start_state_witness:
  "cols (blocked_game\<lparr>over := True, score := 7\<rparr>) = 10 \<and>
   rows (blocked_game\<lparr>over := True, score := 7\<rparr>) = 10 \<and>
   snake (reset (\<lambda>i. rand_half) rand_zero (blocked_game\<lparr>over := True, score := 7\<rparr>)) =
     [\<lparr>x = 5, y = 5\<rparr>, \<lparr>x = 4, y = 5\<rparr>, \<lparr>x = 3, y = 5\<rparr>] \<and>
   score (reset (\<lambda>i. rand_half) rand_zero (blocked_game\<lparr>over := True, score := 7\<rparr>)) = 0 \<and>
   \<not> over (reset (\<lambda>i. rand_half) rand_zero (blocked_game\<lparr>over := True, score := 7\<rparr>)) \<and>
   cols (edge_bgame\<lparr>over := True\<rparr>) = 10 \<and> rows (edge_bgame\<lparr>over := True\<rparr>) = 10 \<and>
   snake (reset_bounded rand_zero (edge_bgame\<lparr>over := True\<rparr>)) =
     [\<lparr>x = 5, y = 5\<rparr>, \<lparr>x = 4, y = 5\<rparr>, \<lparr>x = 3, y = 5\<rparr>] \<and>
   \<not> over (reset_bounded rand_zero (edge_bgame\<lparr>over := True\<rparr>))"
proof -
  have c: "cols (blocked_game\<lparr>over := True, score := 7\<rparr>) = 10 \<and>
      rows (blocked_game\<lparr>over := True, score := 7\<rparr>) = 10"
    by (simp add: blocked_game_def)
  have d: "cols (edge_bgame\<lparr>over := True\<rparr>) = 10 \<and> rows (edge_bgame\<lparr>over := True\<rparr>) = 10"
    by (simp add: edge_bgame_def)
  from c d reset_start_state [where rnd = "\<lambda>i. rand_half" and r = rand_zero
      and g = "blocked_game\<lparr>over := True, score := 7\<rparr>" and b = "edge_bgame\<lparr>over := True\<rparr>"]
  show ?thesis by simp
qed

section \<open>Growth\<close>

lemma candidate_eating_game: "candidate eating_game = \<lparr>x = 6, y = 5\<rparr>"
  by (simp add: candidate_def newHead_def wrap_def js_rem_def eating_game_def)

lemma candidate_eating_bgame: "candidate_bounded eating_bgame = \<lparr>x = 6, y = 5\<rparr>"
  by (simp add: candidate_bounded_def newHead_bounded_def eating_bgame_def)

lemma candidate_roaming_bgame: "candidate_bounded roaming_bgame = \<lparr>x = 5, y = 6\<rparr>"
  by (simp add: candidate_bounded_def newHead_bounded_def roaming_bgame_def)

lemma step_length:
  assumes "\<not> over g" and "engine_inv g"
  shows "\<exists>g' out. step r g = (g', Inr out) \<and>
           (ate out \<longrightarrow> length (snake g') = length (snake g) + 1) \<and>
           (\<not> ate out \<and> \<not> died out \<longrightarrow> length (snake g') = length (snake g))"
proof -
  from assms(2) have ne: "snake g \<noteq> []" and zero: "growAmount g = 0"
    by (simp_all add: engine_inv_def)
  consider (obstacle) "candidate g \<in> set (obstacles g)"
    | (self) "candidate g \<notin> set (obstacles g)" "candidate g \<in> set (snake g)"
    | (eat) "candidate g \<notin> set (obstacles g)" "candidate g \<notin> set (snake g)"
        "food g = Some (candidate g)"
    | (plain) "candidate g \<notin> set (obstacles g)" "candidate g \<notin> set (snake g)"
        "food g \<noteq> Some (candidate g)"
    by blast
  then show ?thesis
  proof cases
    case obstacle
    with assms(1) ne show ?thesis by (simp add: step_obstacle fatal_def)
  next
    case self
    with assms(1) ne show ?thesis by (simp add: step_self fatal_def)
  next
    case eat
    with assms(1) ne zero show ?thesis by (simp add: step_eat)
  next
    case plain
    with assms(1) ne zero show ?thesis by (simp add: step_plain)
  qed
qed

lemma step_bounded_length:
  assumes "\<not> over b" and "engine_inv b"
  shows "\<exists>b' out. step_bounded r b = (b', Inr out) \<and>
           (ate out \<longrightarrow> length (snake b') = length (snake b) + 1) \<and>
           (\<not> ate out \<and> \<not> died out \<longrightarrow> length (snake b') = length (snake b))"
proof -
  from assms(2) have ne: "snake b \<noteq> []" and zero: "growAmount b = 0"
    by (simp_all add: engine_inv_def)
  consider (wall) "\<not> in_grid b (candidate_bounded b)"
    | (self) "in_grid b (candidate_bounded b)" "candidate_bounded b \<in> set (snake b)"
    | (eat) "in_grid b (candidate_bounded b)" "candidate_bounded b \<notin> set (snake b)"
        "food b = Some (candidate_bounded b)"
    | (plain) "in_grid b (candidate_bounded b)" "candidate_bounded b \<notin> set (snake b)"
        "food b \<noteq> Some (candidate_bounded b)"
    by blast
  then show ?thesis
  proof cases
    case wall
    with assms(1) ne show ?thesis by (simp add: step_bounded_wall fatal_def)
  next
    case self
    with assms(1) ne show ?thesis by (simp add: step_bounded_self fatal_def)
  next
    case eat
    with assms(1) ne zero show ?thesis by (simp add: step_bounded_eat)
  next
    case plain
    with assms(1) ne zero show ?thesis by (simp add: step_bounded_plain)
  qed
qed

text \<open>
  Claim C2. In every state of the engine (a state reached from a \<^verbatim>\<open>reset()\<close> by any
  calls, on a grid of positive size) that is not over, \<^verbatim>\<open>step()\<close> returns, and
  when it returns \<open>ate = true\<close> the snake is one segment longer than before, and when it
  returns \<open>ate = false\<close> and \<open>died = false\<close> the snake has the length it had.
  Both variants.
\<close>

theorem growth_per_tick:
  "(valid_config prev \<and> g = fst (run cs (reset rnd rf prev)) \<and> \<not> over g \<longrightarrow>
      (\<exists>g' out. step r g = (g', Inr out) \<and>
         (ate out \<longrightarrow> length (snake g') = length (snake g) + 1) \<and>
         (\<not> ate out \<and> \<not> died out \<longrightarrow> length (snake g') = length (snake g)))) \<and>
   (b = fst (run_bounded cs (reset_bounded rf bprev)) \<and> \<not> over b \<longrightarrow>
      (\<exists>b' out. step_bounded r b = (b', Inr out) \<and>
         (ate out \<longrightarrow> length (snake b') = length (snake b) + 1) \<and>
         (\<not> ate out \<and> \<not> died out \<longrightarrow> length (snake b') = length (snake b))))"
  using step_length [of g r] step_bounded_length [of b r]
    reached_state(1) [of prev g cs rnd rf] reached_state_bounded [of b cs rf bprev]
  by blast

lemma fresh_game_first_tick:
  "snd (step rand_half (fst (run [] (reset (\<lambda>i. rand_zero) rand_nine_tenths fresh_game)))) =
     Inr \<lparr>ate = True, died = False, reason = None\<rparr>"
  by code_simp

lemma fresh_game_second_tick:
  "snd (step rand_half (fst (run [Step rand_zero, SetDirection \<lparr>x = 0, y = 1\<rparr>]
          (reset (\<lambda>i. rand_zero) rand_nine_tenths fresh_game)))) =
     Inr \<lparr>ate = False, died = False, reason = None\<rparr>"
  by code_simp

lemma fresh_bgame_first_tick:
  "snd (step_bounded rand_half (fst (run_bounded [] (reset_bounded rand_nine_tenths fresh_bgame)))) =
     Inr \<lparr>ate = True, died = False, reason = None\<rparr>"
  by code_simp

lemma fresh_bgame_second_tick:
  "snd (step_bounded rand_half (fst (run_bounded [Step rand_zero, SetDirection \<lparr>x = 0, y = 1\<rparr>]
          (reset_bounded rand_nine_tenths fresh_bgame)))) =
     Inr \<lparr>ate = False, died = False, reason = None\<rparr>"
  by code_simp

lemma fresh_not_over:
  "\<not> over (fst (run [] (reset (\<lambda>i. rand_zero) rand_nine_tenths fresh_game)))"
  "\<not> over (fst (run [Step rand_zero, SetDirection \<lparr>x = 0, y = 1\<rparr>]
      (reset (\<lambda>i. rand_zero) rand_nine_tenths fresh_game)))"
  "\<not> over (fst (run_bounded [] (reset_bounded rand_nine_tenths fresh_bgame)))"
  "\<not> over (fst (run_bounded [Step rand_zero, SetDirection \<lparr>x = 0, y = 1\<rparr>]
      (reset_bounded rand_nine_tenths fresh_bgame)))"
  by code_simp+

theorem growth_per_tick_witness:
  "valid_config fresh_game \<and>
   \<not> over (fst (run [] (reset (\<lambda>i. rand_zero) rand_nine_tenths fresh_game))) \<and>
   (\<exists>g'. step rand_half (fst (run [] (reset (\<lambda>i. rand_zero) rand_nine_tenths fresh_game))) =
           (g', Inr \<lparr>ate = True, died = False, reason = None\<rparr>) \<and>
         length (snake g') =
           length (snake (fst (run [] (reset (\<lambda>i. rand_zero) rand_nine_tenths fresh_game)))) + 1) \<and>
   \<not> over (fst (run [Step rand_zero, SetDirection \<lparr>x = 0, y = 1\<rparr>]
             (reset (\<lambda>i. rand_zero) rand_nine_tenths fresh_game))) \<and>
   (\<exists>g'. step rand_half (fst (run [Step rand_zero, SetDirection \<lparr>x = 0, y = 1\<rparr>]
             (reset (\<lambda>i. rand_zero) rand_nine_tenths fresh_game))) =
           (g', Inr \<lparr>ate = False, died = False, reason = None\<rparr>) \<and>
         length (snake g') =
           length (snake (fst (run [Step rand_zero, SetDirection \<lparr>x = 0, y = 1\<rparr>]
             (reset (\<lambda>i. rand_zero) rand_nine_tenths fresh_game))))) \<and>
   \<not> over (fst (run_bounded [] (reset_bounded rand_nine_tenths fresh_bgame))) \<and>
   (\<exists>b'. step_bounded rand_half (fst (run_bounded [] (reset_bounded rand_nine_tenths fresh_bgame))) =
           (b', Inr \<lparr>ate = True, died = False, reason = None\<rparr>) \<and>
         length (snake b') =
           length (snake (fst (run_bounded [] (reset_bounded rand_nine_tenths fresh_bgame)))) + 1) \<and>
   \<not> over (fst (run_bounded [Step rand_zero, SetDirection \<lparr>x = 0, y = 1\<rparr>]
             (reset_bounded rand_nine_tenths fresh_bgame))) \<and>
   (\<exists>b'. step_bounded rand_half (fst (run_bounded [Step rand_zero, SetDirection \<lparr>x = 0, y = 1\<rparr>]
             (reset_bounded rand_nine_tenths fresh_bgame))) =
           (b', Inr \<lparr>ate = False, died = False, reason = None\<rparr>) \<and>
         length (snake b') =
           length (snake (fst (run_bounded [Step rand_zero, SetDirection \<lparr>x = 0, y = 1\<rparr>]
             (reset_bounded rand_nine_tenths fresh_bgame)))))"
proof -
  let ?g1 = "fst (run [] (reset (\<lambda>i. rand_zero) rand_nine_tenths fresh_game))"
  let ?g2 = "fst (run [Step rand_zero, SetDirection \<lparr>x = 0, y = 1\<rparr>]
             (reset (\<lambda>i. rand_zero) rand_nine_tenths fresh_game))"
  let ?b1 = "fst (run_bounded [] (reset_bounded rand_nine_tenths fresh_bgame))"
  let ?b2 = "fst (run_bounded [Step rand_zero, SetDirection \<lparr>x = 0, y = 1\<rparr>]
             (reset_bounded rand_nine_tenths fresh_bgame))"
  have v: "valid_config fresh_game" by (simp add: valid_config_def fresh_game_def)
  note t1 = growth_per_tick [where prev = fresh_game and g = ?g1 and cs = "[]"
      and rnd = "\<lambda>i. rand_zero" and rf = rand_nine_tenths and r = rand_half
      and b = ?b1 and bprev = fresh_bgame]
  note t2 = growth_per_tick [where prev = fresh_game and g = ?g2
      and cs = "[Step rand_zero, SetDirection \<lparr>x = 0, y = 1\<rparr>]"
      and rnd = "\<lambda>i. rand_zero" and rf = rand_nine_tenths and r = rand_half
      and b = ?b2 and bprev = fresh_bgame]
  from t1 v fresh_not_over(1) fresh_game_first_tick
  have a1: "\<exists>g'. step rand_half ?g1 = (g', Inr \<lparr>ate = True, died = False, reason = None\<rparr>) \<and>
         length (snake g') = length (snake ?g1) + 1"
    by (auto simp del: run.simps)
  from t2 v fresh_not_over(2) fresh_game_second_tick
  have a2: "\<exists>g'. step rand_half ?g2 = (g', Inr \<lparr>ate = False, died = False, reason = None\<rparr>) \<and>
         length (snake g') = length (snake ?g2)"
    by (auto simp del: run.simps)
  from t1 fresh_not_over(3) fresh_bgame_first_tick
  have a3: "\<exists>b'. step_bounded rand_half ?b1 =
           (b', Inr \<lparr>ate = True, died = False, reason = None\<rparr>) \<and>
         length (snake b') = length (snake ?b1) + 1"
    by (auto simp del: run_bounded.simps)
  from t2 fresh_not_over(4) fresh_bgame_second_tick
  have a4: "\<exists>b'. step_bounded rand_half ?b2 =
           (b', Inr \<lparr>ate = False, died = False, reason = None\<rparr>) \<and>
         length (snake b') = length (snake ?b2)"
    by (auto simp del: run_bounded.simps)
  from v fresh_not_over a1 a2 a3 a4 show ?thesis by blast
qed

lemma eating_game_tick:
  "snd (step rand_half eating_game) = Inr \<lparr>ate = True, died = False, reason = None\<rparr>"
proof -
  have "\<not> over eating_game" "snake eating_game \<noteq> []" "growAmount eating_game = 0"
    "candidate eating_game \<notin> set (obstacles eating_game)"
    "candidate eating_game \<notin> set (snake eating_game)"
    "food eating_game = Some (candidate eating_game)"
    by (simp_all add: candidate_eating_game) (simp_all add: eating_game_def)
  then show ?thesis by (simp add: step_eat)
qed

lemma eating_bgame_tick:
  "snd (step_bounded rand_half eating_bgame) = Inr \<lparr>ate = True, died = False, reason = None\<rparr>"
proof -
  have "\<not> over eating_bgame" "snake eating_bgame \<noteq> []" "growAmount eating_bgame = 0"
    "in_grid eating_bgame (candidate_bounded eating_bgame)"
    "candidate_bounded eating_bgame \<notin> set (snake eating_bgame)"
    "food eating_bgame = Some (candidate_bounded eating_bgame)"
    by (simp_all add: candidate_eating_bgame in_grid_def) (simp_all add: eating_bgame_def)
  then show ?thesis by (simp add: step_bounded_eat)
qed

lemma roaming_bgame_tick:
  "snd (step_bounded rand_half roaming_bgame) = Inr \<lparr>ate = False, died = False, reason = None\<rparr>"
proof -
  have "\<not> over roaming_bgame" "snake roaming_bgame \<noteq> []" "growAmount roaming_bgame = 0"
    "in_grid roaming_bgame (candidate_bounded roaming_bgame)"
    "candidate_bounded roaming_bgame \<notin> set (snake roaming_bgame)"
    "food roaming_bgame \<noteq> Some (candidate_bounded roaming_bgame)"
    by (simp_all add: candidate_roaming_bgame in_grid_def) (simp_all add: roaming_bgame_def)
  then show ?thesis by (simp add: step_bounded_plain)
qed

section \<open>Score\<close>

lemma setDirection_fields [simp]:
  "score (setDirection d g) = score g"
  "growAmount (setDirection d g) = growAmount g"
  "snake (setDirection d g) = snake g"
  "over (setDirection d g) = over g"
  "food (setDirection d g) = food g"
  "cols (setDirection d g) = cols g"
  "rows (setDirection d g) = rows g"
  by (simp_all add: setDirection_def)

lemma run_score:
  "\<not> list_ex is_reset cs \<Longrightarrow>
   score (fst (run cs g)) = score g + int (length (filter ate (snd (run cs g))))"
proof (induction cs arbitrary: g)
  case Nil
  show ?case by simp
next
  case (Cons c cs)
  show ?case
  proof (cases c)
    case (Reset rnd r)
    with Cons.prems show ?thesis by simp
  next
    case (SetDirection d)
    with Cons show ?thesis by simp
  next
    case (Step r)
    obtain g' res where st: "step r g = (g', res)" by (cases "step r g")
    show ?thesis
    proof (cases res)
      case (Inl e)
      with st Step step_score [OF st] show ?thesis by simp
    next
      case (Inr out)
      from Cons have "score (fst (run cs g')) =
          score g' + int (length (filter ate (snd (run cs g'))))" by simp
      with st Step Inr step_score [OF st] show ?thesis
        by (cases "run cs g'") simp
    qed
  qed
qed

lemma run_bounded_score:
  "\<not> list_ex is_reset cs \<Longrightarrow>
   score (fst (run_bounded cs b)) = score b + int (length (filter ate (snd (run_bounded cs b))))"
proof (induction cs arbitrary: b)
  case Nil
  show ?case by simp
next
  case (Cons c cs)
  show ?case
  proof (cases c)
    case (Reset rnd r)
    with Cons.prems show ?thesis by simp
  next
    case (SetDirection d)
    with Cons show ?thesis by simp
  next
    case (Step r)
    obtain b' res where st: "step_bounded r b = (b', res)" by (cases "step_bounded r b")
    show ?thesis
    proof (cases res)
      case (Inl e)
      with st Step step_bounded_score [OF st] show ?thesis by simp
    next
      case (Inr out)
      from Cons have "score (fst (run_bounded cs b')) =
          score b' + int (length (filter ate (snd (run_bounded cs b'))))" by simp
      with st Step Inr step_bounded_score [OF st] show ?thesis
        by (cases "run_bounded cs b'") simp
    qed
  qed
qed

text \<open>
  Claim C9. A call of \<^verbatim>\<open>step()\<close> adds exactly 1 to the score when it returns
  \<open>ate = true\<close> and leaves the score as it is otherwise; \<^verbatim>\<open>setDirection\<close> leaves
  it as it is. So after any sequence of calls of these two methods the score is the score
  before plus the number of calls of \<^verbatim>\<open>step()\<close> that returned \<open>ate = true\<close>, and
  is never less than before. Both variants.
\<close>

theorem score_counts_meals:
  "(valid_config g \<longrightarrow>
      (\<exists>g' res. step r g = (g', res) \<and>
         score g' = (case res of Inl e \<Rightarrow> score g
                     | Inr out \<Rightarrow> if ate out then score g + 1 else score g)) \<and>
      score (setDirection d g) = score g \<and>
      (\<forall>cs. \<not> list_ex is_reset cs \<longrightarrow>
         score (fst (run cs g)) = score g + int (length (filter ate (snd (run cs g)))) \<and>
         score g \<le> score (fst (run cs g)))) \<and>
   (\<exists>b' res. step_bounded r b = (b', res) \<and>
      score b' = (case res of Inl e \<Rightarrow> score b
                  | Inr out \<Rightarrow> if ate out then score b + 1 else score b)) \<and>
   score (setDirection d b) = score b \<and>
   (\<forall>cs. \<not> list_ex is_reset cs \<longrightarrow>
      score (fst (run_bounded cs b)) =
        score b + int (length (filter ate (snd (run_bounded cs b)))) \<and>
      score b \<le> score (fst (run_bounded cs b)))"
proof -
  obtain g' res where st: "step r g = (g', res)" by (cases "step r g")
  obtain b' res' where sb: "step_bounded r b = (b', res')" by (cases "step_bounded r b")
  from st step_score [OF st] sb step_bounded_score [OF sb] show ?thesis
    by (simp add: run_score run_bounded_score)
qed

lemma run_rejected_then_step:
  "d = opposite (direction g) \<Longrightarrow> snd (step r g) = Inr out \<Longrightarrow>
   run [SetDirection d, Step r] g = (fst (step r g), [out])"
  by (cases "step r g") (simp add: setDirection_opposite)

lemma run_bounded_rejected_then_step:
  "d = opposite (direction b) \<Longrightarrow> snd (step_bounded r b) = Inr out \<Longrightarrow>
   run_bounded [SetDirection d, Step r] b = (fst (step_bounded r b), [out])"
  by (cases "step_bounded r b") (simp add: setDirection_opposite)

theorem score_counts_meals_witness:
  "valid_config eating_game \<and>
   \<not> list_ex is_reset [SetDirection \<lparr>x = - 1, y = 0\<rparr>, Step rand_half] \<and>
   snd (run [SetDirection \<lparr>x = - 1, y = 0\<rparr>, Step rand_half] eating_game) =
     [\<lparr>ate = True, died = False, reason = None\<rparr>] \<and>
   score eating_game = 0 \<and>
   score (fst (run [SetDirection \<lparr>x = - 1, y = 0\<rparr>, Step rand_half] eating_game)) = 1 \<and>
   snd (run_bounded [SetDirection \<lparr>x = - 1, y = 0\<rparr>, Step rand_half] roaming_bgame) =
     [\<lparr>ate = False, died = False, reason = None\<rparr>] \<and>
   score roaming_bgame = 2 \<and>
   score (fst (run_bounded [SetDirection \<lparr>x = - 1, y = 0\<rparr>, Step rand_half] roaming_bgame)) = 2"
proof -
  let ?cs = "[SetDirection \<lparr>x = - 1, y = 0\<rparr>, Step rand_half]"
  have v: "valid_config eating_game" by (simp add: valid_config_def eating_game_def)
  have n: "\<not> list_ex is_reset ?cs" by simp
  have "\<lparr>x = - 1, y = 0\<rparr> = opposite (direction eating_game)"
    by (simp add: opposite_def eating_game_def)
  then have r1: "snd (run ?cs eating_game) = [\<lparr>ate = True, died = False, reason = None\<rparr>]"
    using run_rejected_then_step [OF _ eating_game_tick] by simp
  have "\<lparr>x = - 1, y = 0\<rparr> = opposite (direction roaming_bgame)"
    by (simp add: opposite_def roaming_bgame_def)
  then have r2: "snd (run_bounded ?cs roaming_bgame) =
      [\<lparr>ate = False, died = False, reason = None\<rparr>]"
    using run_bounded_rejected_then_step [OF _ roaming_bgame_tick] by simp
  have s: "score eating_game = 0" "score roaming_bgame = 2"
    by (simp_all add: eating_game_def roaming_bgame_def)
  note t = score_counts_meals [where g = eating_game and b = roaming_bgame and r = rand_half
      and d = "\<lparr>x = - 1, y = 0\<rparr>"]
  from t v n have "score (fst (run ?cs eating_game)) =
      score eating_game + int (length (filter ate (snd (run ?cs eating_game))))"
    by blast
  with r1 s have f1: "score (fst (run ?cs eating_game)) = 1"
    by (simp del: run.simps)
  from t n have "score (fst (run_bounded ?cs roaming_bgame)) =
      score roaming_bgame + int (length (filter ate (snd (run_bounded ?cs roaming_bgame))))"
    by blast
  with r2 s have f2: "score (fst (run_bounded ?cs roaming_bgame)) = 2"
    by (simp del: run_bounded.simps)
  from v n r1 r2 s f1 f2 show ?thesis by blast
qed

section \<open>The growth counter\<close>

lemma step_ate_growAmount:
  "step r g = (g', Inr out) \<Longrightarrow> ate out \<Longrightarrow> 0 \<le> growAmount g \<Longrightarrow>
   growAmount g' = growAmount g"
  by (auto simp add: step_def Let_def split: if_splits list.splits)

lemma step_bounded_ate_growAmount:
  "step_bounded r b = (b', Inr out) \<Longrightarrow> ate out \<Longrightarrow> 0 \<le> growAmount b \<Longrightarrow>
   growAmount b' = growAmount b"
  by (auto simp add: step_bounded_def Let_def split: if_splits list.splits)

lemma run_growAmount: "growAmount g = 0 \<Longrightarrow> growAmount (fst (run cs g)) = 0"
proof (induction cs arbitrary: g)
  case Nil
  then show ?case by simp
next
  case (Cons c cs)
  show ?case
  proof (cases c)
    case (Reset rnd r)
    with Cons.IH [of "reset rnd r g"] show ?thesis by (simp add: reset_fields)
  next
    case (SetDirection d)
    with Cons show ?thesis by simp
  next
    case (Step r)
    obtain g' res where st: "step r g = (g', res)" by (cases "step r g")
    from Cons.prems st step_growAmount [of g r] have z: "growAmount g' = 0" by simp
    show ?thesis
    proof (cases res)
      case (Inl e)
      with st Step z show ?thesis by simp
    next
      case (Inr out)
      with st Step Cons.IH [OF z] show ?thesis by (cases "run cs g'") simp
    qed
  qed
qed

lemma run_bounded_growAmount: "growAmount b = 0 \<Longrightarrow> growAmount (fst (run_bounded cs b)) = 0"
proof (induction cs arbitrary: b)
  case Nil
  then show ?case by simp
next
  case (Cons c cs)
  show ?case
  proof (cases c)
    case (Reset rnd r)
    with Cons.IH [of "reset_bounded r b"] show ?thesis by (simp add: reset_bounded_fields)
  next
    case (SetDirection d)
    with Cons show ?thesis by simp
  next
    case (Step r)
    obtain b' res where st: "step_bounded r b = (b', res)" by (cases "step_bounded r b")
    from Cons.prems st step_bounded_growAmount [of b r] have z: "growAmount b' = 0" by simp
    show ?thesis
    proof (cases res)
      case (Inl e)
      with st Step z show ?thesis by simp
    next
      case (Inr out)
      with st Step Cons.IH [OF z] show ?thesis by (cases "run_bounded cs b'") simp
    qed
  qed
qed

text \<open>
  Claim C10. \<open>growAmount\<close> is 0 after \<^verbatim>\<open>reset()\<close>, and stays 0 through every
  call of \<^verbatim>\<open>setDirection\<close> and of \<^verbatim>\<open>step()\<close>, so it is 0 after every
  sequence of calls that follows a \<^verbatim>\<open>reset()\<close>. A tick that eats returns the
  counter to the value it had before the tick: the increment at the food check is undone by
  the decrement of the same tick, and no growth is left for a later tick. Both variants.
\<close>

theorem growAmount_stays_zero:
  "growAmount (reset rnd r g) = 0 \<and>
   (growAmount g = 0 \<longrightarrow> growAmount (setDirection d g) = 0) \<and>
   (valid_config g \<and> growAmount g = 0 \<longrightarrow> growAmount (fst (step r g)) = 0) \<and>
   (valid_config g \<and> 0 \<le> growAmount g \<longrightarrow>
      (\<forall>g' out. step r g = (g', Inr out) \<and> ate out \<longrightarrow> growAmount g' = growAmount g)) \<and>
   (valid_config g \<longrightarrow> (\<forall>cs. growAmount (fst (run cs (reset rnd r g))) = 0)) \<and>
   growAmount (reset_bounded r b) = 0 \<and>
   (growAmount b = 0 \<longrightarrow> growAmount (setDirection d b) = 0) \<and>
   (growAmount b = 0 \<longrightarrow> growAmount (fst (step_bounded r b)) = 0) \<and>
   (0 \<le> growAmount b \<longrightarrow>
      (\<forall>b' out. step_bounded r b = (b', Inr out) \<and> ate out \<longrightarrow> growAmount b' = growAmount b)) \<and>
   (\<forall>cs. growAmount (fst (run_bounded cs (reset_bounded r b))) = 0)"
  using step_ate_growAmount [of r g] step_bounded_ate_growAmount [of r b]
  by (simp add: reset_fields reset_bounded_fields step_growAmount step_bounded_growAmount
      run_growAmount run_bounded_growAmount)

theorem growAmount_stays_zero_witness:
  "valid_config eating_game \<and> growAmount eating_game = 0 \<and>
   growAmount (setDirection \<lparr>x = 0, y = 1\<rparr> eating_game) = 0 \<and>
   growAmount (fst (step rand_half eating_game)) = 0 \<and>
   step rand_half eating_game =
     (fst (step rand_half eating_game), Inr \<lparr>ate = True, died = False, reason = None\<rparr>) \<and>
   ate \<lparr>ate = True, died = False, reason = None\<rparr> \<and>
   growAmount (fst (step rand_half eating_game)) = growAmount eating_game \<and>
   growAmount (fst (run [Step rand_half, SetDirection \<lparr>x = 0, y = 1\<rparr>, Step rand_zero]
                     (reset (\<lambda>i. rand_half) rand_zero eating_game))) = 0 \<and>
   growAmount eating_bgame = 0 \<and>
   growAmount (fst (step_bounded rand_half eating_bgame)) = 0 \<and>
   step_bounded rand_half eating_bgame =
     (fst (step_bounded rand_half eating_bgame), Inr \<lparr>ate = True, died = False, reason = None\<rparr>) \<and>
   growAmount (fst (step_bounded rand_half eating_bgame)) = growAmount eating_bgame \<and>
   growAmount (fst (run_bounded [Step rand_half, SetDirection \<lparr>x = 0, y = 1\<rparr>, Step rand_zero]
                     (reset_bounded rand_zero eating_bgame))) = 0"
proof -
  have v: "valid_config eating_game" by (simp add: valid_config_def eating_game_def)
  have z: "growAmount eating_game = 0" "growAmount eating_bgame = 0"
    by (simp_all add: eating_game_def eating_bgame_def)
  have e1: "step rand_half eating_game =
     (fst (step rand_half eating_game), Inr \<lparr>ate = True, died = False, reason = None\<rparr>)"
    using eating_game_tick by (cases "step rand_half eating_game") simp
  have e2: "step_bounded rand_half eating_bgame =
     (fst (step_bounded rand_half eating_bgame), Inr \<lparr>ate = True, died = False, reason = None\<rparr>)"
    using eating_bgame_tick by (cases "step_bounded rand_half eating_bgame") simp
  have a: "ate \<lparr>ate = True, died = False, reason = None\<rparr>" by simp
  note t = growAmount_stays_zero [where g = eating_game and b = eating_bgame and r = rand_half
      and d = "\<lparr>x = 0, y = 1\<rparr>"]
  from t v z have s1: "growAmount (setDirection \<lparr>x = 0, y = 1\<rparr> eating_game) = 0"
    and s2: "growAmount (fst (step rand_half eating_game)) = 0"
    and s3: "growAmount (fst (step_bounded rand_half eating_bgame)) = 0"
    by blast+
  from t v z e1 a have s4: "growAmount (fst (step rand_half eating_game)) = growAmount eating_game"
    by (simp only: s2 z)
  from t z e2 a have s5:
    "growAmount (fst (step_bounded rand_half eating_bgame)) = growAmount eating_bgame"
    by (simp only: s3 z)
  note u = growAmount_stays_zero [where g = eating_game and b = eating_bgame and r = rand_zero
      and rnd = "\<lambda>i. rand_half"]
  from u v have s6: "growAmount (fst (run [Step rand_half, SetDirection \<lparr>x = 0, y = 1\<rparr>, Step rand_zero]
                     (reset (\<lambda>i. rand_half) rand_zero eating_game))) = 0"
    by blast
  from u have s7: "growAmount (fst (run_bounded [Step rand_half, SetDirection \<lparr>x = 0, y = 1\<rparr>, Step rand_zero]
                     (reset_bounded rand_zero eating_bgame))) = 0"
    by blast
  from v z s1 s2 s3 s4 s5 s6 s7 e1 e2 a show ?thesis by blast
qed

end
